theory Spec2Isabelle
  imports Complex_Main
begin

section \<open>Data model of \<open>src/celltoolbartracker.ts\<close>\<close>

text \<open>
  The toolbar tracker decorates a host notebook. The host's objects (the notebook panel
  with its cell widgets, the settings object, the command registry, the two
  change signals) are part of the state the tracker's methods read and mutate, so the
  model threads one record, \<open>world\<close>, through every method: the tracker's private fields
  first, the host objects it holds references to after them.
\<close>

datatype CellType = Code | Markdown | Raw

text \<open>Icons are objects of the host's icon library or, in settings, registered names.\<close>

datatype LabIcon =
    addIcon | caretDownEmptyThinIcon | caretUpEmptyThinIcon | markdownIcon | runIcon
  | codeIcon | deleteIcon | formatIcon
  | IconName string

text \<open>\<open>ICellMenuItem\<close>: \<open>command\<close> and \<open>icon\<close> are required, the other two optional.\<close>

record ICellMenuItem =
  cellType :: "CellType option"
  command :: string
  icon :: LabIcon
  tooltip :: "string option"

definition DEFAULT_LEFT_MENU :: "ICellMenuItem list" where
  "DEFAULT_LEFT_MENU =
    [ \<lparr>cellType = Some Markdown, command = ''notebook:change-cell-to-code'',
        icon = codeIcon, tooltip = None\<rparr>,
      \<lparr>cellType = Some Code, command = ''notebook:change-cell-to-markdown'',
        icon = markdownIcon, tooltip = None\<rparr>,
      \<lparr>cellType = Some Code, command = ''jupyterlab_code_formatter:format'',
        icon = formatIcon, tooltip = Some ''Format Cell''\<rparr>,
      \<lparr>cellType = None, command = ''notebook:delete-cell'',
        icon = deleteIcon, tooltip = None\<rparr> ]"

definition POSITIONED_BUTTONS :: "ICellMenuItem list" where
  "POSITIONED_BUTTONS =
    [ \<lparr>cellType = None, command = ''notebook:run-cell-and-select-next'',
        icon = runIcon, tooltip = None\<rparr>,
      \<lparr>cellType = None, command = ''notebook:move-cell-up'',
        icon = caretUpEmptyThinIcon, tooltip = None\<rparr>,
      \<lparr>cellType = None, command = ''notebook:move-cell-down'',
        icon = caretDownEmptyThinIcon, tooltip = None\<rparr>,
      \<lparr>cellType = None, command = ''notebook:insert-cell-below'',
        icon = addIcon, tooltip = None\<rparr> ]"

definition CELL_BAR_CLASS :: string where
  "CELL_BAR_CLASS = ''jp-enh-cell-bar''"

subsection \<open>Settings\<close>

text \<open>
  \<open>settings.composite\<close> is a JSON object with four keys. A key holding \<open>null\<close> (or
  missing) is \<open>None\<close>; an array, also the empty one, is \<open>Some\<close> of a list. JavaScript
  treats every array as truthy and \<open>null\<close> as falsy, which is what the handler's tests
  \<open>if (leftItems)\<close> and \<open>x || []\<close> look at.
\<close>

record Composite =
  defaultTags :: "string list option"
  leftMenu :: "ICellMenuItem list option"
  leftSpace :: "real option"
  rightMenu :: "ICellMenuItem list option"

record ISettings =
  composite :: Composite

subsection \<open>Commands\<close>

text \<open>
  The command registry as the list of registered commands with their labels.
  \<open>label\<close> of an unregistered command is the empty string in the host library.
\<close>

type_synonym CommandRegistry = "(string \<times> string) list"

definition hasCommand :: "CommandRegistry \<Rightarrow> string \<Rightarrow> bool" where
  "hasCommand reg c = (map_of reg c \<noteq> None)"

definition label :: "CommandRegistry \<Rightarrow> string \<Rightarrow> string" where
  "label reg c = (case map_of reg c of None \<Rightarrow> [] | Some l \<Rightarrow> l)"

subsection \<open>Widgets\<close>

text \<open>Cell models are compared by identity (\<open>===\<close>): a model is its identifier.\<close>

type_synonym ICellModel = nat

text \<open>
  Modelled from the spec: the classes \<open>CellToolbarWidget\<close> (\<open>./celltoolbarwidget\<close>) and
  \<open>PositionedButton\<close> (\<open>./positionedbutton\<close>) are not among the sources. A constructed
  widget is the record of its constructor's arguments. The command registry and the
  three collections are passed to \<open>CellToolbarWidget\<close> by reference and are always the
  tracker's own (spec 3: "holds a reference (not ownership) to the shared tag collection
  and the two shared menu collections"), so the toolbar records its cell model and the
  width of its spacer region, which starts as the \<open>leftSpace\<close> argument (spec 4.3).
  A positioned button records its icon, the command its callback executes, its
  \<open>className\<close> option and its tooltip. Any other child of a cell's layout is a host widget.
\<close>

datatype WidgetBody =
    CellToolbarWidget ICellModel real
  | PositionedButton LabIcon string "string option" string
  | HostWidget string

record Widget =
  classes :: "string list"
  body :: WidgetBody

definition hasClass :: "string \<Rightarrow> Widget \<Rightarrow> bool" where
  "hasClass c x = (c \<in> set (classes x))"

definition addClass :: "string \<Rightarrow> Widget \<Rightarrow> Widget" where
  "addClass c x = (if c \<in> set (classes x) then x else x\<lparr>classes := classes x @ [c]\<rparr>)"

text \<open>A cell widget: the model it renders and the children of its panel layout.\<close>

record Cell =
  model :: ICellModel
  layout :: "Widget list"

subsection \<open>Observable lists\<close>

text \<open>
  The host's observable list: every mutation that changes the list emits one change
  event carrying the added or removed values. \<open>removeValue\<close> looks for the first index of
  the value and removes the element at that index. When the value is absent the index
  is \<open>-1\<close>, which the host's removal counts from the end of the list: the last element is
  removed and reported, unless the list is empty.
\<close>

datatype 'a change = Added "'a list" | Removed "'a list"

definition clear :: "'a list \<Rightarrow> 'a list \<times> 'a change list" where
  "clear xs = ([], [Removed xs])"

definition pushAll :: "'a list \<Rightarrow> 'a list \<Rightarrow> 'a list \<times> 'a change list" where
  "pushAll vs xs = (xs @ vs, [Added vs])"

definition removeValue :: "'a \<Rightarrow> 'a list \<Rightarrow> 'a list \<times> 'a change list" where
  "removeValue v xs =
    (if v \<in> set xs then (remove1 v xs, [Removed [v]])
     else if xs = [] then (xs, [])
     else (butlast xs, [Removed [last xs]]))"

subsection \<open>The state\<close>

datatype error = SettingsIsNull | PanelIsNull

text \<open>What the tracker does to the world outside its own fields, in order.\<close>

datatype effect =
    TagsChanged "string change"
  | LeftMenuChanged "ICellMenuItem change"
  | RightMenuChanged "ICellMenuItem change"
  | WidgetDisposed ICellModel Widget
  | WidgetInserted ICellModel nat Widget
  | WidgetAdded ICellModel Widget
  | SpacerWidthSet real

datatype NotebookPanel = NotebookPanel

text \<open>
  The private fields of \<open>CellToolbarTracker\<close> under their names without the underscore
  (\<open>panel\<close> is the reference \<open>_panel\<close>, \<open>None\<close> once it is \<open>null\<close>), then the host:
  \<open>widgets\<close> is \<open>panel.content.widgets\<close>; \<open>cellsSlot\<close> says that \<open>updateConnectedCells\<close>
  is connected to \<open>cells.changed\<close>, \<open>settingsSlot\<close> that \<open>_onSettingsChanged\<close> is
  connected to the \<open>changed\<close> signal of a settings object; \<open>trace\<close> lists the effects.
\<close>

record world =
  allTags :: "string list"
  commands :: CommandRegistry
  isDisposed :: bool
  leftMenuItems :: "ICellMenuItem list"
  previousDefaultTags :: "string list"
  panel :: "NotebookPanel option"
  rightMenuItems :: "ICellMenuItem list"
  settings :: "ISettings option"
  widgets :: "Cell list"
  cellsSlot :: bool
  settingsSlot :: bool
  trace :: "effect list"

text \<open>\<open>IObservableList.IChangedArgs\<close>: the two fields the tracker reads.\<close>

record IChangedArgs =
  oldValues :: "ICellModel list"
  newValues :: "ICellModel list"

section \<open>The methods\<close>

text \<open>\<open>xs.forEach(f)\<close> where \<open>f\<close> may throw.\<close>

fun forEach :: "('a \<Rightarrow> world \<Rightarrow> error + world) \<Rightarrow> 'a list \<Rightarrow> world \<Rightarrow> error + world" where
  "forEach f [] w = Inr w"
| "forEach f (x # xs) w = (case f x w of Inl e \<Rightarrow> Inl e | Inr w' \<Rightarrow> forEach f xs w')"

subsection \<open>Settings handler\<close>

text \<open>\<open>(this._settings?.composite['leftSpace'] as number) || 0\<close>\<close>

definition leftSpaceOrZero :: "ISettings option \<Rightarrow> real" where
  "leftSpaceOrZero s =
    (case s of None \<Rightarrow> 0
     | Some st \<Rightarrow> (case leftSpace (composite st) of None \<Rightarrow> 0 | Some n \<Rightarrow> n))"

text \<open>The block "Update menu items", left menu.\<close>

definition updateLeftMenu :: "ISettings \<Rightarrow> world \<Rightarrow> world" where
  "updateLeftMenu s w =
    (let leftItems = leftMenu (composite s);
         w1 = (if length (leftMenuItems w) > 0
               then (let (xs, evs) = clear (leftMenuItems w)
                     in w\<lparr>leftMenuItems := xs, trace := trace w @ map LeftMenuChanged evs\<rparr>)
               else w);
         push = (\<lambda>items. let (xs, evs) = pushAll items (leftMenuItems w1)
                 in w1\<lparr>leftMenuItems := xs, trace := trace w1 @ map LeftMenuChanged evs\<rparr>)
     in case leftItems of
          Some items \<Rightarrow> (if length items > 0 then push items else w1)
        | None \<Rightarrow> push DEFAULT_LEFT_MENU)"

text \<open>The same block, right menu: \<open>rightItems = composite['rightMenu'] || []\<close>.\<close>

definition updateRightMenu :: "ISettings \<Rightarrow> world \<Rightarrow> world" where
  "updateRightMenu s w =
    (let rightItems = (case rightMenu (composite s) of Some items \<Rightarrow> items | None \<Rightarrow> []);
         w1 = (if length (rightMenuItems w) > 0
               then (let (xs, evs) = clear (rightMenuItems w)
                     in w\<lparr>rightMenuItems := xs, trace := trace w @ map RightMenuChanged evs\<rparr>)
               else w)
     in if length rightItems > 0
        then (let (xs, evs) = pushAll rightItems (rightMenuItems w1)
              in w1\<lparr>rightMenuItems := xs, trace := trace w1 @ map RightMenuChanged evs\<rparr>)
        else w1)"

text \<open>
  The block "Update tags": \<open>newDefaultTags = composite['defaultTags'] || []\<close>, the tags
  \<open>toAdd\<close> are pushed in one call when there are any, then each previous tag that is
  not a new one is removed by value.
\<close>

definition newDefaultTags :: "ISettings \<Rightarrow> string list" where
  "newDefaultTags s = (case defaultTags (composite s) of Some ts \<Rightarrow> ts | None \<Rightarrow> [])"

definition toAdd :: "string list \<Rightarrow> string list \<Rightarrow> string list" where
  "toAdd prev new = filter (\<lambda>tag. tag \<notin> set prev) new"

definition toRemove :: "string list \<Rightarrow> string list \<Rightarrow> string list" where
  "toRemove prev new = filter (\<lambda>tag. tag \<notin> set new) prev"

definition removeTag :: "string \<Rightarrow> world \<Rightarrow> world" where
  "removeTag tag w =
    (let (xs, evs) = removeValue tag (allTags w)
     in w\<lparr>allTags := xs, trace := trace w @ map TagsChanged evs\<rparr>)"

definition updateTags :: "ISettings \<Rightarrow> world \<Rightarrow> world" where
  "updateTags s w =
    (let add = toAdd (previousDefaultTags w) (newDefaultTags s);
         w1 = (if length add > 0
               then (let (xs, evs) = pushAll add (allTags w)
                     in w\<lparr>allTags := xs, trace := trace w @ map TagsChanged evs\<rparr>)
               else w);
         w2 = fold removeTag (toRemove (previousDefaultTags w1) (newDefaultTags s)) w1
     in w2\<lparr>previousDefaultTags := newDefaultTags s\<rparr>)"

text \<open>
  The block "Update left space". Modelled from the spec: the nodes of class
  \<open>LEFT_SPACER_CLASSNAME\<close> (a constant of \<open>./celltoolbarwidget\<close>) are the spacer regions
  of the toolbars attached below the panel (spec 4.4: "push the new left-space value to
  every existing toolbar's spacer region directly").
\<close>

definition setSpacer :: "real \<Rightarrow> Widget \<Rightarrow> Widget" where
  "setSpacer n x =
    (case body x of CellToolbarWidget m _ \<Rightarrow> x\<lparr>body := CellToolbarWidget m n\<rparr> | _ \<Rightarrow> x)"

definition updateLeftSpace :: "world \<Rightarrow> error + world" where
  "updateLeftSpace w =
    (let n = leftSpaceOrZero (settings w)
     in case panel w of
          None \<Rightarrow> Inl PanelIsNull
        | Some p \<Rightarrow>
            Inr (w\<lparr>widgets := map (\<lambda>c. c\<lparr>layout := map (setSpacer n) (layout c)\<rparr>) (widgets w),
                   trace := trace w @ [SpacerWidthSet n]\<rparr>))"

text \<open>
  \<open>_onSettingsChanged\<close>. Its first statement reads \<open>this._settings.composite\<close> with no
  test: a \<open>TypeError\<close> when \<open>_settings\<close> is \<open>null\<close>.
\<close>

definition onSettingsChanged :: "world \<Rightarrow> error + world" where
  "onSettingsChanged w =
    (case settings w of
       None \<Rightarrow> Inl SettingsIsNull
     | Some s \<Rightarrow> updateLeftSpace (updateTags s (updateRightMenu s (updateLeftMenu s w))))"

subsection \<open>Toolbars\<close>

text \<open>\<open>_getCell\<close>: the first widget of the panel whose model is the given one.\<close>

definition getCell :: "ICellModel \<Rightarrow> world \<Rightarrow> error + Cell option" where
  "getCell m w =
    (case panel w of
       None \<Rightarrow> Inl PanelIsNull
     | Some p \<Rightarrow> Inr (find (\<lambda>widget. model widget = m) (widgets w)))"

text \<open>A mutation of the layout of the cell widget that \<open>_getCell\<close> returned.\<close>

fun modifyCell :: "ICellModel \<Rightarrow> (Widget list \<Rightarrow> Widget list) \<Rightarrow> Cell list \<Rightarrow> Cell list" where
  "modifyCell m f [] = []"
| "modifyCell m f (c # cs) =
    (if model c = m then c\<lparr>layout := f (layout c)\<rparr> # cs else c # modifyCell m f cs)"

definition findToolbarWidgets :: "Cell \<Rightarrow> Widget list" where
  "findToolbarWidgets cell = filter (hasClass CELL_BAR_CLASS) (layout cell)"

text \<open>\<open>widget.dispose()\<close> detaches the widget from the layout of its parent.\<close>

definition disposeWidget :: "ICellModel \<Rightarrow> Widget \<Rightarrow> world \<Rightarrow> world" where
  "disposeWidget m x w =
    w\<lparr>widgets := modifyCell m (remove1 x) (widgets w),
      trace := trace w @ [WidgetDisposed m x]\<rparr>"

definition removeToolbar :: "ICellModel \<Rightarrow> world \<Rightarrow> error + world" where
  "removeToolbar m w =
    (case getCell m w of
       Inl e \<Rightarrow> Inl e
     | Inr None \<Rightarrow> Inr w
     | Inr (Some cell) \<Rightarrow> Inr (fold (disposeWidget m) (findToolbarWidgets cell) w))"

text \<open>\<open>command.split(':')\<close> and its element 1, \<open>undefined\<close> when there is no colon.\<close>

fun split :: "char \<Rightarrow> string \<Rightarrow> string list" where
  "split sep [] = [[]]"
| "split sep (c # cs) =
    (if c = sep then [] # split sep cs
     else (case split sep cs of [] \<Rightarrow> [[c]] | p # ps \<Rightarrow> (c # p) # ps))"

definition shortName :: "string \<Rightarrow> string option" where
  "shortName cmd = (case split (CHR '':'') cmd of _ # p # _ \<Rightarrow> Some p | _ \<Rightarrow> None)"

definition cellTypeName :: "CellType option \<Rightarrow> string" where
  "cellTypeName t =
    (case t of None \<Rightarrow> ''all'' | Some Code \<Rightarrow> ''code''
     | Some Markdown \<Rightarrow> ''markdown'' | Some Raw \<Rightarrow> ''raw'')"

text \<open>The button built for one entry of \<open>POSITIONED_BUTTONS\<close>, with its two classes.\<close>

definition positionedButton :: "CommandRegistry \<Rightarrow> ICellMenuItem \<Rightarrow> Widget" where
  "positionedButton reg entry =
    (let className = (case shortName (command entry) of
                        None \<Rightarrow> None
                      | Some n \<Rightarrow> (if n = [] then Some [] else Some (''jp-enh-cell-'' @ n)));
         tip = (case tooltip entry of
                  None \<Rightarrow> label reg (command entry)
                | Some t \<Rightarrow> (if t = [] then label reg (command entry) else t));
         button = \<lparr>classes = [], body = PositionedButton (icon entry) (command entry) className tip\<rparr>
     in addClass (''jp-enh-cell-'' @ cellTypeName (cellType entry)) (addClass CELL_BAR_CLASS button))"

definition insertWidget :: "ICellModel \<Rightarrow> Widget \<Rightarrow> world \<Rightarrow> world" where
  "insertWidget m x w =
    w\<lparr>widgets := modifyCell m (\<lambda>l. x # l) (widgets w),
      trace := trace w @ [WidgetInserted m 0 x]\<rparr>"

definition addWidget :: "ICellModel \<Rightarrow> Widget \<Rightarrow> world \<Rightarrow> world" where
  "addWidget m x w =
    w\<lparr>widgets := modifyCell m (\<lambda>l. l @ [x]) (widgets w),
      trace := trace w @ [WidgetAdded m x]\<rparr>"

definition addButton :: "ICellModel \<Rightarrow> ICellMenuItem \<Rightarrow> world \<Rightarrow> world" where
  "addButton m entry w =
    (if hasCommand (commands w) (command entry)
     then addWidget m (positionedButton (commands w) entry) w
     else w)"

definition addToolbar :: "ICellModel \<Rightarrow> world \<Rightarrow> error + world" where
  "addToolbar m w =
    (case getCell m w of
       Inl e \<Rightarrow> Inl e
     | Inr None \<Rightarrow> Inr w
     | Inr (Some cell) \<Rightarrow>
         (let toolbar = addClass CELL_BAR_CLASS
                \<lparr>classes = [], body = CellToolbarWidget m (leftSpaceOrZero (settings w))\<rparr>
          in Inr (fold (addButton m) POSITIONED_BUTTONS (insertWidget m toolbar w))))"

text \<open>\<open>updateConnectedCells(cells, changed)\<close>; the list \<open>cells\<close> is not read.\<close>

definition updateConnectedCells :: "ICellModel list \<Rightarrow> IChangedArgs \<Rightarrow> world \<Rightarrow> error + world" where
  "updateConnectedCells cells changed w =
    (case forEach removeToolbar (oldValues changed) w of
       Inl e \<Rightarrow> Inl e
     | Inr w1 \<Rightarrow> forEach addToolbar (newValues changed) w1)"

subsection \<open>Construction and disposal\<close>

text \<open>
  \<open>new CellToolbarTracker(panel, commands, settings)\<close>, on a panel showing the cell
  widgets \<open>ws\<close>. The field initialisers create the three collections empty.
\<close>

definition initial :: "Cell list \<Rightarrow> CommandRegistry \<Rightarrow> ISettings option \<Rightarrow> world" where
  "initial ws reg s =
    \<lparr>allTags = [], commands = reg, isDisposed = False, leftMenuItems = [],
     previousDefaultTags = [], panel = Some NotebookPanel, rightMenuItems = [],
     settings = s, widgets = ws, cellsSlot = False, settingsSlot = False, trace = []\<rparr>"

definition new_CellToolbarTracker ::
    "Cell list \<Rightarrow> CommandRegistry \<Rightarrow> ISettings option \<Rightarrow> error + world" where
  "new_CellToolbarTracker ws reg s =
    (let w = initial ws reg s
     in case (if settings w \<noteq> None
              then (case onSettingsChanged w of
                      Inl e \<Rightarrow> Inl e
                    | Inr w1 \<Rightarrow> Inr (w1\<lparr>settingsSlot := True\<rparr>))
              else Inr w) of
          Inl e \<Rightarrow> Inl e
        | Inr w2 \<Rightarrow> Inr (w2\<lparr>cellsSlot := True\<rparr>))"

definition dispose :: "world \<Rightarrow> error + world" where
  "dispose w =
    (if isDisposed w then Inr w
     else
       (let w1 = w\<lparr>isDisposed := True\<rparr>;
            w2 = (if settings w1 \<noteq> None then w1\<lparr>settingsSlot := False\<rparr> else w1)
        in case panel w2 of
             None \<Rightarrow> Inl PanelIsNull
           | Some p \<Rightarrow> Inr (w2\<lparr>cellsSlot := False, panel := None\<rparr>)))"

subsection \<open>Events\<close>

text \<open>
  The host delivers one event at a time. A signal calls the slots connected to it: the
  handler runs only while its slot is connected. A settings change stores the new
  composite in the settings object first; the host may re-render, replacing the list of
  cell widgets of the panel.
\<close>

datatype event =
    CellsChanged "ICellModel list" IChangedArgs
  | SettingsChanged Composite
  | Dispose
  | HostRender "Cell list"

fun deliver :: "event \<Rightarrow> world \<Rightarrow> error + world" where
  "deliver (CellsChanged cells changed) w =
    (if cellsSlot w then updateConnectedCells cells changed w else Inr w)"
| "deliver (SettingsChanged c) w =
    (let w1 = w\<lparr>settings := map_option (\<lambda>s. s\<lparr>composite := c\<rparr>) (settings w)\<rparr>
     in if settingsSlot w1 then onSettingsChanged w1 else Inr w1)"
| "deliver Dispose w = dispose w"
| "deliver (HostRender ws) w = Inr (w\<lparr>widgets := ws\<rparr>)"

definition run :: "event list \<Rightarrow> world \<Rightarrow> error + world" where
  "run evs w = forEach deliver evs w"

section \<open>Notions used in the statements\<close>

text \<open>A tracker constructed on a panel, then the events the host delivers to it.\<close>

definition session ::
    "Cell list \<Rightarrow> CommandRegistry \<Rightarrow> ISettings option \<Rightarrow> event list \<Rightarrow> error + world" where
  "session ws reg s evs =
    (case new_CellToolbarTracker ws reg s of Inl e \<Rightarrow> Inl e | Inr w \<Rightarrow> run evs w)"

text \<open>The lookup of \<open>_getCell\<close> on a list of cell widgets, and whether it finds one.\<close>

definition cellOf :: "ICellModel \<Rightarrow> Cell list \<Rightarrow> Cell option" where
  "cellOf m cs = find (\<lambda>widget. model widget = m) cs"

definition rendered :: "ICellModel \<Rightarrow> Cell list \<Rightarrow> bool" where
  "rendered m cs = (m \<in> set (map model cs))"

text \<open>What is left of a layout once its toolbar-class children are disposed.\<close>

definition stripToolbars :: "Widget list \<Rightarrow> Widget list" where
  "stripToolbars l = filter (\<lambda>x. \<not> hasClass CELL_BAR_CLASS x) l"

text \<open>
  The toolbar \<open>_addToolbar\<close> constructs for a model, the positioned buttons it attaches
  (those whose command is registered), and the layout they are attached to.
\<close>

definition toolbarFor :: "ICellModel \<Rightarrow> world \<Rightarrow> Widget" where
  "toolbarFor m w = addClass CELL_BAR_CLASS
     \<lparr>classes = [], body = CellToolbarWidget m (leftSpaceOrZero (settings w))\<rparr>"

definition buttonsFor :: "world \<Rightarrow> Widget list" where
  "buttonsFor w = map (positionedButton (commands w))
     (filter (\<lambda>entry. hasCommand (commands w) (command entry)) POSITIONED_BUTTONS)"

definition decorate :: "world \<Rightarrow> ICellModel \<Rightarrow> Widget list \<Rightarrow> Widget list" where
  "decorate w m l = toolbarFor m w # l @ buttonsFor w"

text \<open>
  The effects of the two phases of a cell-list change: the disposals, model by model on
  the widgets as the earlier removals left them, and the attachments.
\<close>

fun disposals :: "ICellModel list \<Rightarrow> Cell list \<Rightarrow> effect list" where
  "disposals [] cs = []"
| "disposals (m # ms) cs =
     map (WidgetDisposed m) (case cellOf m cs of None \<Rightarrow> [] | Some c \<Rightarrow> findToolbarWidgets c)
     @ disposals ms (modifyCell m stripToolbars cs)"

definition attachments :: "world \<Rightarrow> ICellModel \<Rightarrow> effect list" where
  "attachments w m =
     (if rendered m (widgets w)
      then WidgetInserted m 0 (toolbarFor m w) # map (WidgetAdded m) (buttonsFor w)
      else [])"

fun isDisposal :: "effect \<Rightarrow> bool" where
  "isDisposal (WidgetDisposed m x) = True"
| "isDisposal e = False"

fun isAttachment :: "effect \<Rightarrow> bool" where
  "isAttachment (WidgetInserted m i x) = True"
| "isAttachment (WidgetAdded m x) = True"
| "isAttachment e = False"

text \<open>The change events of the tag collection in a trace, and the values they carry.\<close>

definition tagChanges :: "effect list \<Rightarrow> string change list" where
  "tagChanges es = concat (map (\<lambda>e. case e of TagsChanged c \<Rightarrow> [c] | _ \<Rightarrow> []) es)"

definition addedValues :: "'a change list \<Rightarrow> 'a list" where
  "addedValues cs = concat (map (\<lambda>c. case c of Added vs \<Rightarrow> vs | Removed _ \<Rightarrow> []) cs)"

definition removedValues :: "'a change list \<Rightarrow> 'a list" where
  "removedValues cs = concat (map (\<lambda>c. case c of Removed vs \<Rightarrow> vs | Added _ \<Rightarrow> []) cs)"

text \<open>
  What a sequence of \<open>removeValue\<close> calls leaves of a collection, and the change events
  it emits.
\<close>

fun removeValues :: "'a list \<Rightarrow> 'a list \<Rightarrow> 'a list" where
  "removeValues [] xs = xs"
| "removeValues (v # vs) xs = removeValues vs (fst (removeValue v xs))"

fun removals :: "'a list \<Rightarrow> 'a list \<Rightarrow> 'a change list" where
  "removals [] xs = []"
| "removals (v # vs) xs = snd (removeValue v xs) @ removals vs (fst (removeValue v xs))"

text \<open>
  The Toolbar Instances of a cell widget are the children that are toolbars of its model
  and carry the toolbar class, by which the tracker finds them again.
\<close>

definition isToolbarFor :: "ICellModel \<Rightarrow> Widget \<Rightarrow> bool" where
  "isToolbarFor m x =
     (hasClass CELL_BAR_CLASS x \<and> (case body x of CellToolbarWidget m' n \<Rightarrow> m' = m | _ \<Rightarrow> False))"

definition toolbarInstances :: "Cell \<Rightarrow> Widget list" where
  "toolbarInstances c = filter (isToolbarFor (model c)) (layout c)"

text \<open>
  Toolbars and live cells correspond one to one on a panel when no two cell widgets show
  the same model, every widget of a live cell carries exactly one Toolbar Instance and
  every other widget none (\<open>toolbarsMatch\<close>), and every live cell has a widget.
\<close>

definition toolbarsMatch :: "ICellModel list \<Rightarrow> Cell list \<Rightarrow> bool" where
  "toolbarsMatch cells cs =
     (distinct (map model cs) \<and>
      list_all (\<lambda>c. length (toolbarInstances c) = (if model c \<in> set cells then 1 else 0)) cs)"

definition correspondence :: "ICellModel list \<Rightarrow> Cell list \<Rightarrow> bool" where
  "correspondence cells cs = (toolbarsMatch cells cs \<and> list_all (\<lambda>m. rendered m cs) cells)"

text \<open>
  What holds of every state a tracker reaches: the settings handler is connected only if
  there are settings; a disposed tracker has no connection and no panel; a tracker that
  is not disposed has its panel.
\<close>

definition consistent :: "world \<Rightarrow> bool" where
  "consistent w =
     ((settingsSlot w \<longrightarrow> settings w \<noteq> None) \<and>
      (isDisposed w \<longrightarrow> \<not> cellsSlot w \<and> \<not> settingsSlot w \<and> panel w = None) \<and>
      (\<not> isDisposed w \<longrightarrow> panel w \<noteq> None))"

text \<open>
  Event sequences on a notebook whose list of cells is \<open>live\<close>. A cell-list change is
  allowed when it adds each model once, adds only models that are not in the notebook or
  that it also removes, leaves the list \<open>cells\<close> made of the cells that stay and the added
  ones, and every cell of \<open>cells\<close> has a widget on the panel when the event is handled.
  A rendering by the host is allowed when the new widgets show distinct models and each
  of them either carries the Toolbar Instances of a widget of the same model that was
  on the panel, or shows a model that is not in the notebook and carries none. Disposal
  ends the tracking and is not part of such a sequence. A sequence is admissible when
  each event is allowed in the state the events before it lead to.
\<close>

fun liveNext :: "ICellModel list \<Rightarrow> event \<Rightarrow> ICellModel list" where
  "liveNext live (CellsChanged cells changed) = cells"
| "liveNext live e = live"

fun allowed :: "ICellModel list \<Rightarrow> world \<Rightarrow> event \<Rightarrow> bool" where
  "allowed live w (CellsChanged cells changed) =
     (distinct (newValues changed) \<and>
      list_all (\<lambda>m. m \<in> set (oldValues changed) \<or> m \<notin> set live) (newValues changed) \<and>
      set cells = (set live - set (oldValues changed)) \<union> set (newValues changed) \<and>
      list_all (\<lambda>m. rendered m (widgets w)) cells)"
| "allowed live w (SettingsChanged c) = True"
| "allowed live w Dispose = False"
| "allowed live w (HostRender ws) =
     (distinct (map model ws) \<and>
      list_all (\<lambda>c. list_ex (\<lambda>c0. model c0 = model c \<and> toolbarInstances c0 = toolbarInstances c)
                         (widgets w) \<or>
                    (model c \<notin> set live \<and> toolbarInstances c = [])) ws)"

fun admissible :: "ICellModel list \<Rightarrow> world \<Rightarrow> event list \<Rightarrow> bool" where
  "admissible live w [] = True"
| "admissible live w (e # es) =
     (allowed live w e \<and>
      (case deliver e w of Inl err \<Rightarrow> False | Inr w' \<Rightarrow> admissible (liveNext live e) w' es))"

text \<open>A tracker that is connected to the cell list, with toolbars matching the cells.\<close>

definition tracking :: "ICellModel list \<Rightarrow> world \<Rightarrow> bool" where
  "tracking live w =
     (consistent w \<and> \<not> isDisposed w \<and> cellsSlot w \<and> toolbarsMatch live (widgets w))"


text \<open>
  A tracker without settings leaves its three collections as the field initialisers
  made them.
\<close>

definition unconfigured :: "world \<Rightarrow> bool" where
  "unconfigured w =
     (settings w = None \<and> \<not> settingsSlot w \<and> leftMenuItems w = [] \<and>
      rightMenuItems w = [] \<and> allTags w = [] \<and> previousDefaultTags w = [])"

subsection \<open>Inputs of the examples\<close>

text \<open>A settings object, and the settings of the schema with both menus \<open>null\<close>.\<close>

definition settingsOf :: "Composite \<Rightarrow> ISettings option" where
  "settingsOf c = Some \<lparr>composite = c\<rparr>"

definition noMenus :: Composite where
  "noMenus = \<lparr>defaultTags = Some [''parameters''], leftMenu = None, leftSpace = Some 0,
              rightMenu = None\<rparr>"

text \<open>The tracker of the third property of the spec: previous default tags a and b.\<close>

definition tagsAB :: world where
  "tagsAB = (initial [] [] (settingsOf (noMenus\<lparr>defaultTags := Some [''b'', ''c'']\<rparr>)))
     \<lparr>allTags := [''a'', ''b''], previousDefaultTags := [''a'', ''b'']\<rparr>"

text \<open>
  The widget of cell 1 as the host renders it, the event that adds cell 1 to the
  notebook, the event that moves it, and the toolbar a tracker without settings makes.
\<close>

definition cell1 :: Cell where
  "cell1 = \<lparr>model = 1,
     layout = [\<lparr>classes = [''jp-Cell-inputWrapper''], body = HostWidget ''input''\<rparr>]\<rparr>"

definition added1 :: event where
  "added1 = CellsChanged [1] \<lparr>oldValues = [], newValues = [1]\<rparr>"

definition moved1 :: IChangedArgs where
  "moved1 = \<lparr>oldValues = [1], newValues = [1]\<rparr>"

definition toolbar1 :: Widget where
  "toolbar1 = \<lparr>classes = [''jp-enh-cell-bar''], body = CellToolbarWidget 1 0\<rparr>"

text \<open>A tracker without settings on a panel that shows cell 1 without a toolbar.\<close>

definition undecorated :: world where
  "undecorated = (initial [cell1] [] None)\<lparr>cellsSlot := True\<rparr>"

text \<open>
  The widget of cell 2, a history (the host renders cell 1, the notebook announces it,
  the host renders cell 2 beside the decorated cell 1, the settings change), and the
  tracker with the settings of the schema on an empty panel, as its constructor leaves it.
\<close>

definition cell2 :: Cell where
  "cell2 = \<lparr>model = 2,
     layout = [\<lparr>classes = [''jp-Cell-inputWrapper''], body = HostWidget ''input''\<rparr>]\<rparr>"

definition history :: "event list" where
  "history = [HostRender [cell1], added1,
              HostRender [cell2, cell1\<lparr>layout := toolbar1 # layout cell1\<rparr>],
              SettingsChanged noMenus]"

definition started :: world where
  "started = (initial [] [] (settingsOf noMenus))
     \<lparr>leftMenuItems := DEFAULT_LEFT_MENU, allTags := [''parameters''],
      previousDefaultTags := [''parameters''],
      trace := [LeftMenuChanged (Added DEFAULT_LEFT_MENU), TagsChanged (Added [''parameters'']),
                SpacerWidthSet 0],
      settingsSlot := True, cellsSlot := True\<rparr>"

text \<open>
  A registry with the four commands of the positioned buttons, the four buttons, and a
  tracker with that registry on a panel that shows cell 1 with its toolbar.
\<close>

definition allCommands :: CommandRegistry where
  "allCommands =
    [(''notebook:run-cell-and-select-next'', ''Run''),
     (''notebook:move-cell-up'', ''Move Up''),
     (''notebook:move-cell-down'', ''Move Down''),
     (''notebook:insert-cell-below'', ''Insert Below'')]"

definition fourButtons :: "Widget list" where
  "fourButtons =
    [\<lparr>classes = [''jp-enh-cell-bar'', ''jp-enh-cell-all''],
      body = PositionedButton runIcon ''notebook:run-cell-and-select-next''
               (Some ''jp-enh-cell-run-cell-and-select-next'') ''Run''\<rparr>,
     \<lparr>classes = [''jp-enh-cell-bar'', ''jp-enh-cell-all''],
      body = PositionedButton caretUpEmptyThinIcon ''notebook:move-cell-up''
               (Some ''jp-enh-cell-move-cell-up'') ''Move Up''\<rparr>,
     \<lparr>classes = [''jp-enh-cell-bar'', ''jp-enh-cell-all''],
      body = PositionedButton caretDownEmptyThinIcon ''notebook:move-cell-down''
               (Some ''jp-enh-cell-move-cell-down'') ''Move Down''\<rparr>,
     \<lparr>classes = [''jp-enh-cell-bar'', ''jp-enh-cell-all''],
      body = PositionedButton addIcon ''notebook:insert-cell-below''
               (Some ''jp-enh-cell-insert-cell-below'') ''Insert Below''\<rparr>]"

definition decoratedAll :: world where
  "decoratedAll =
     (initial [cell1\<lparr>layout := toolbar1 # layout cell1\<rparr>] allCommands None)\<lparr>cellsSlot := True\<rparr>"

section \<open>Settings decoding\<close>

lemma leftMenuItems_updateLeftMenu:
  "leftMenuItems (updateLeftMenu s w) =
    (case leftMenu (composite s) of None \<Rightarrow> DEFAULT_LEFT_MENU | Some items \<Rightarrow> items)"
  by (cases "leftMenu (composite s)")
     (auto simp: updateLeftMenu_def clear_def pushAll_def Let_def)

lemma rightMenuItems_updateRightMenu:
  "rightMenuItems (updateRightMenu s w) =
    (case rightMenu (composite s) of None \<Rightarrow> [] | Some items \<Rightarrow> items)"
  by (cases "rightMenu (composite s)")
     (auto simp: updateRightMenu_def clear_def pushAll_def Let_def)

lemma updateRightMenu_frame [simp]:
  "leftMenuItems (updateRightMenu s w) = leftMenuItems w"
  "allTags (updateRightMenu s w) = allTags w"
  "previousDefaultTags (updateRightMenu s w) = previousDefaultTags w"
  "panel (updateRightMenu s w) = panel w"
  "settings (updateRightMenu s w) = settings w"
  "widgets (updateRightMenu s w) = widgets w"
  "tagChanges (trace (updateRightMenu s w)) = tagChanges (trace w)"
  by (auto simp: updateRightMenu_def clear_def pushAll_def Let_def tagChanges_def)

lemma updateLeftMenu_frame [simp]:
  "rightMenuItems (updateLeftMenu s w) = rightMenuItems w"
  "allTags (updateLeftMenu s w) = allTags w"
  "previousDefaultTags (updateLeftMenu s w) = previousDefaultTags w"
  "panel (updateLeftMenu s w) = panel w"
  "settings (updateLeftMenu s w) = settings w"
  "widgets (updateLeftMenu s w) = widgets w"
  "tagChanges (trace (updateLeftMenu s w)) = tagChanges (trace w)"
  by (auto simp: updateLeftMenu_def clear_def pushAll_def Let_def tagChanges_def split: option.splits)

lemma removeTag_frame [simp]:
  "leftMenuItems (removeTag t w) = leftMenuItems w"
  "rightMenuItems (removeTag t w) = rightMenuItems w"
  "previousDefaultTags (removeTag t w) = previousDefaultTags w"
  "panel (removeTag t w) = panel w"
  "settings (removeTag t w) = settings w"
  "widgets (removeTag t w) = widgets w"
  "allTags (removeTag t w) = fst (removeValue t (allTags w))"
  by (simp_all add: removeTag_def split_beta)

lemma fold_removeTag_frame [simp]:
  "leftMenuItems (fold removeTag ts w) = leftMenuItems w"
  "rightMenuItems (fold removeTag ts w) = rightMenuItems w"
  "previousDefaultTags (fold removeTag ts w) = previousDefaultTags w"
  "panel (fold removeTag ts w) = panel w"
  "settings (fold removeTag ts w) = settings w"
  "widgets (fold removeTag ts w) = widgets w"
  "allTags (fold removeTag ts w) = removeValues ts (allTags w)"
  by (induction ts arbitrary: w) simp_all

lemma updateTags_frame [simp]:
  "leftMenuItems (updateTags s w) = leftMenuItems w"
  "rightMenuItems (updateTags s w) = rightMenuItems w"
  "panel (updateTags s w) = panel w"
  "settings (updateTags s w) = settings w"
  "widgets (updateTags s w) = widgets w"
  "previousDefaultTags (updateTags s w) = newDefaultTags s"
  by (simp_all add: updateTags_def pushAll_def Let_def)

lemma allTags_updateTags:
  "allTags (updateTags s w) =
     removeValues (toRemove (previousDefaultTags w) (newDefaultTags s))
       (allTags w @ toAdd (previousDefaultTags w) (newDefaultTags s))"
  by (simp add: updateTags_def pushAll_def Let_def)

lemma updateLeftSpace_Some:
  "panel w = Some p \<Longrightarrow>
   updateLeftSpace w = Inr (w\<lparr>widgets := map (\<lambda>c. c\<lparr>layout := map (setSpacer (leftSpaceOrZero (settings w))) (layout c)\<rparr>) (widgets w),
                   trace := trace w @ [SpacerWidthSet (leftSpaceOrZero (settings w))]\<rparr>)"
  by (simp add: updateLeftSpace_def Let_def)

lemma onSettingsChanged_Some:
  assumes "settings w = Some s" and "panel w = Some p"
  shows "\<exists>w'. onSettingsChanged w = Inr w' \<and>
     leftMenuItems w' = (case leftMenu (composite s) of None \<Rightarrow> DEFAULT_LEFT_MENU | Some items \<Rightarrow> items) \<and>
     rightMenuItems w' = (case rightMenu (composite s) of None \<Rightarrow> [] | Some items \<Rightarrow> items) \<and>
     allTags w' = removeValues (toRemove (previousDefaultTags w) (newDefaultTags s))
       (allTags w @ toAdd (previousDefaultTags w) (newDefaultTags s)) \<and>
     previousDefaultTags w' = newDefaultTags s"
  using assms
  by (simp add: onSettingsChanged_def updateLeftSpace_Some leftMenuItems_updateLeftMenu
      rightMenuItems_updateRightMenu allTags_updateTags)


lemma slots_updateLeftMenu [simp]:
  "isDisposed (updateLeftMenu s w) = isDisposed w"
  "cellsSlot (updateLeftMenu s w) = cellsSlot w"
  "settingsSlot (updateLeftMenu s w) = settingsSlot w"
  "commands (updateLeftMenu s w) = commands w"
  by (auto simp: updateLeftMenu_def clear_def pushAll_def Let_def split: option.splits)

lemma slots_updateRightMenu [simp]:
  "isDisposed (updateRightMenu s w) = isDisposed w"
  "cellsSlot (updateRightMenu s w) = cellsSlot w"
  "settingsSlot (updateRightMenu s w) = settingsSlot w"
  "commands (updateRightMenu s w) = commands w"
  by (auto simp: updateRightMenu_def clear_def pushAll_def Let_def)

lemma slots_removeTag [simp]:
  "isDisposed (removeTag t w) = isDisposed w"
  "cellsSlot (removeTag t w) = cellsSlot w"
  "settingsSlot (removeTag t w) = settingsSlot w"
  "commands (removeTag t w) = commands w"
  by (auto simp: removeTag_def removeValue_def Let_def)

lemma slots_fold_removeTag [simp]:
  "isDisposed (fold removeTag ts w) = isDisposed w"
  "cellsSlot (fold removeTag ts w) = cellsSlot w"
  "settingsSlot (fold removeTag ts w) = settingsSlot w"
  "commands (fold removeTag ts w) = commands w"
  by (induction ts arbitrary: w) simp_all

lemma slots_updateTags [simp]:
  "isDisposed (updateTags s w) = isDisposed w"
  "cellsSlot (updateTags s w) = cellsSlot w"
  "settingsSlot (updateTags s w) = settingsSlot w"
  "commands (updateTags s w) = commands w"
  by (simp_all add: updateTags_def pushAll_def Let_def)

lemma onSettingsChanged_frame:
  assumes "settings w = Some s" and "panel w = Some p"
  shows "\<exists>w'. onSettingsChanged w = Inr w' \<and> settings w' = settings w \<and> panel w' = panel w \<and>
     isDisposed w' = isDisposed w \<and> cellsSlot w' = cellsSlot w \<and> settingsSlot w' = settingsSlot w"
  using assms by (simp add: onSettingsChanged_def updateLeftSpace_Some)

text \<open>
  Claim C2. When a settings change is decoded on a tracker that has its settings and its
  panel, the handler returns; if \<open>leftMenu\<close> is \<open>null\<close> the left-menu collection then holds
  exactly the built-in default set, which has four items, and if \<open>leftMenu\<close> is the empty
  list the collection holds no item.
\<close>

theorem leftMenu_null_vs_empty:
  assumes "settings w = Some s" and "panel w = Some p"
  shows "\<exists>w'. onSettingsChanged w = Inr w' \<and>
     (leftMenu (composite s) = None \<longrightarrow>
        leftMenuItems w' = DEFAULT_LEFT_MENU \<and> length (leftMenuItems w') = 4) \<and>
     (leftMenu (composite s) = Some [] \<longrightarrow> leftMenuItems w' = [])"
proof -
  obtain w' where r: "onSettingsChanged w = Inr w'"
    and l: "leftMenuItems w' = (case leftMenu (composite s) of None \<Rightarrow> DEFAULT_LEFT_MENU | Some items \<Rightarrow> items)"
    using onSettingsChanged_Some [OF assms] by blast
  have "length DEFAULT_LEFT_MENU = 4"
    by (simp add: DEFAULT_LEFT_MENU_def)
  with r l show ?thesis
    by simp
qed

theorem leftMenu_null_vs_empty_witness:
  "(\<exists>w'. onSettingsChanged (initial [] [] (settingsOf noMenus)) = Inr w' \<and> leftMenuItems w' = DEFAULT_LEFT_MENU \<and> length (leftMenuItems w') = 4) \<and>
   (\<exists>w'. onSettingsChanged (initial [] [] (settingsOf (noMenus\<lparr>leftMenu := Some []\<rparr>))) = Inr w' \<and> leftMenuItems w' = [])"
  using leftMenu_null_vs_empty [of "initial [] [] (settingsOf noMenus)" "\<lparr>composite = noMenus\<rparr>" NotebookPanel]
    leftMenu_null_vs_empty [of "initial [] [] (settingsOf (noMenus\<lparr>leftMenu := Some []\<rparr>))" "\<lparr>composite = noMenus\<lparr>leftMenu := Some []\<rparr>\<rparr>" NotebookPanel]
  by (simp add: initial_def settingsOf_def noMenus_def)


text \<open>
  Claim C3, as amended. A \<open>rightMenu\<close> of \<open>null\<close> is decoded like the empty list: in both
  cases the right-menu collection holds no item. There is no built-in default right menu.
\<close>

theorem rightMenu_null_is_empty:
  assumes "settings w = Some s" and "panel w = Some p"
  shows "\<exists>w'. onSettingsChanged w = Inr w' \<and>
     (rightMenu (composite s) = None \<longrightarrow> rightMenuItems w' = []) \<and>
     (rightMenu (composite s) = Some [] \<longrightarrow> rightMenuItems w' = [])"
proof -
  obtain w' where r: "onSettingsChanged w = Inr w'"
    and l: "rightMenuItems w' = (case rightMenu (composite s) of None \<Rightarrow> [] | Some items \<Rightarrow> items)"
    using onSettingsChanged_Some [OF assms] by blast
  then show ?thesis
    by simp
qed


theorem rightMenu_null_is_empty_witness:
  "(\<exists>w'. onSettingsChanged (initial [] [] (settingsOf noMenus)) = Inr w' \<and> rightMenuItems w' = []) \<and>
   (\<exists>w'. onSettingsChanged (initial [] [] (settingsOf (noMenus\<lparr>rightMenu := Some []\<rparr>))) = Inr w'
      \<and> rightMenuItems w' = [])"
  using rightMenu_null_is_empty [of "initial [] [] (settingsOf noMenus)" "\<lparr>composite = noMenus\<rparr>" NotebookPanel]
    rightMenu_null_is_empty [of "initial [] [] (settingsOf (noMenus\<lparr>rightMenu := Some []\<rparr>))"
       "\<lparr>composite = noMenus\<lparr>rightMenu := Some []\<rparr>\<rparr>" NotebookPanel]
  by (simp add: initial_def settingsOf_def noMenus_def)

text \<open>
  The claim fails as stated: decoding \<open>rightMenu: null\<close> and decoding \<open>rightMenu: []\<close> on a
  fresh tracker both leave the right-menu collection empty.
\<close>

theorem rightMenu_null_counterexample:
  "map_sum id rightMenuItems (onSettingsChanged (initial [] [] (settingsOf noMenus))) = Inr [] \<and>
   map_sum id rightMenuItems
     (onSettingsChanged (initial [] [] (settingsOf (noMenus\<lparr>rightMenu := Some []\<rparr>)))) = Inr []"
  by (simp add: initial_def settingsOf_def noMenus_def onSettingsChanged_def updateLeftSpace_Some
      rightMenuItems_updateRightMenu)

section \<open>The default tags\<close>

lemma tagChanges_append [simp]: "tagChanges (es @ fs) = tagChanges es @ tagChanges fs"
  by (simp add: tagChanges_def)

lemma tagChanges_simps [simp]:
  "tagChanges [] = []"
  "tagChanges (TagsChanged c # es) = c # tagChanges es"
  "tagChanges (LeftMenuChanged d # es) = tagChanges es"
  "tagChanges (RightMenuChanged d # es) = tagChanges es"
  "tagChanges (WidgetDisposed m x # es) = tagChanges es"
  "tagChanges (WidgetInserted m i x # es) = tagChanges es"
  "tagChanges (WidgetAdded m x # es) = tagChanges es"
  "tagChanges (SpacerWidthSet n # es) = tagChanges es"
  by (simp_all add: tagChanges_def)

lemma addedValues_simps [simp]:
  "addedValues [] = []"
  "addedValues (Added vs # cs) = vs @ addedValues cs"
  "addedValues (Removed vs # cs) = addedValues cs"
  "addedValues (cs @ ds) = addedValues cs @ addedValues ds"
  by (simp_all add: addedValues_def)

lemma removedValues_simps [simp]:
  "removedValues [] = []"
  "removedValues (Added vs # cs) = removedValues cs"
  "removedValues (Removed vs # cs) = vs @ removedValues cs"
  "removedValues (cs @ ds) = removedValues cs @ removedValues ds"
  by (simp_all add: removedValues_def)

lemma tagChanges_map_TagsChanged [simp]: "tagChanges (map TagsChanged cs) = cs"
  by (induction cs) simp_all

lemma tagChanges_fold_removeTag:
  "tagChanges (trace (fold removeTag ts w)) = tagChanges (trace w) @ removals ts (allTags w)"
proof (induction ts arbitrary: w)
  case Nil
  then show ?case by simp
next
  case (Cons t ts)
  have "tagChanges (trace (removeTag t w)) = tagChanges (trace w) @ snd (removeValue t (allTags w))"
    by (simp add: removeTag_def split_beta)
  moreover have "allTags (removeTag t w) = fst (removeValue t (allTags w))"
    by (simp add: removeTag_def split_beta)
  ultimately show ?case
    by (simp add: Cons.IH)
qed

lemma tagChanges_updateTags:
  "tagChanges (trace (updateTags s w)) =
     tagChanges (trace w)
     @ (if toAdd (previousDefaultTags w) (newDefaultTags s) = [] then []
        else [Added (toAdd (previousDefaultTags w) (newDefaultTags s))])
     @ removals (toRemove (previousDefaultTags w) (newDefaultTags s))
         (allTags w @ toAdd (previousDefaultTags w) (newDefaultTags s))"
  by (simp add: updateTags_def pushAll_def Let_def tagChanges_fold_removeTag)

lemma addedValues_removals [simp]: "addedValues (removals vs xs) = []"
  by (induction vs arbitrary: xs) (simp_all add: removeValue_def)

lemma removeValue_present: "v \<in> set xs \<Longrightarrow> removeValue v xs = (remove1 v xs, [Removed [v]])"
  by (simp add: removeValue_def)

lemma remove_present:
  "distinct vs \<Longrightarrow> set vs \<subseteq> set xs \<Longrightarrow>
   removeValues vs xs = fold remove1 vs xs \<and> removals vs xs = map (\<lambda>v. Removed [v]) vs"
proof (induction vs arbitrary: xs)
  case Nil
  then show ?case by simp
next
  case (Cons v vs)
  have "x \<in> set (remove1 v xs)" if "x \<in> set vs" for x
  proof -
    from that Cons.prems have "x \<noteq> v" "x \<in> set xs" by auto
    then show ?thesis by (simp add: in_set_remove1)
  qed
  then have "set vs \<subseteq> set (remove1 v xs)"
    by blast
  with Cons have "removeValues vs (remove1 v xs) = fold remove1 vs (remove1 v xs)"
    "removals vs (remove1 v xs) = map (\<lambda>v. Removed [v]) vs"
    by simp_all
  with Cons.prems show ?case
    by (simp add: removeValue_present)
qed

lemma removedValues_singletons [simp]: "removedValues (map (\<lambda>v. Removed [v]) vs) = vs"
  by (induction vs) simp_all

lemma fold_remove1_append_notin:
  "set ts \<inter> set ys = {} \<Longrightarrow> fold remove1 ts (xs @ ys) = fold remove1 ts xs @ ys"
proof (induction ts arbitrary: xs)
  case Nil
  then show ?case by simp
next
  case (Cons t ts)
  then have "t \<notin> set ys" by auto
  then have "remove1 t (xs @ ys) = remove1 t xs @ ys"
    by (simp add: remove1_append remove1_idem)
  with Cons show ?case by simp
qed

lemma filter_fold_remove1:
  "\<forall>t \<in> set ts. \<not> P t \<Longrightarrow> filter P (fold remove1 ts xs) = filter P xs"
proof (induction ts arbitrary: xs)
  case Nil
  then show ?case by simp
next
  case (Cons t ts)
  then have "filter P (remove1 t xs) = filter P xs"
    by (simp add: filter_remove1 remove1_idem)
  with Cons show ?case by simp
qed

text \<open>
  The update is the diff the bookkeeping of the previous default tags aims at as long as
  every tag to remove is found: when the previous tags \<open>prev\<close> are distinct and all in the
  collection, a settings change with default tags \<open>new\<close> adds exactly the tags of \<open>new\<close>
  that are not in \<open>prev\<close>, removes exactly the tags of \<open>prev\<close> that are not in \<open>new\<close>, and leaves
  the tags of both lists where they were.
\<close>

lemma defaultTags_diff_when_present:
  assumes "settings w = Some s" and "panel w = Some p"
    and "prev = previousDefaultTags w"
    and "new = (case defaultTags (composite s) of Some ts \<Rightarrow> ts | None \<Rightarrow> [])"
    and "distinct prev" and "set prev \<subseteq> set (allTags w)"
  shows "\<exists>w' es. onSettingsChanged w = Inr w' \<and>
     previousDefaultTags w' = new \<and>
     tagChanges (trace w') = tagChanges (trace w) @ es \<and>
     addedValues es = filter (\<lambda>t. t \<notin> set prev) new \<and>
     removedValues es = filter (\<lambda>t. t \<notin> set new) prev \<and>
     allTags w' = fold remove1 (filter (\<lambda>t. t \<notin> set new) prev) (allTags w)
        @ filter (\<lambda>t. t \<notin> set prev) new \<and>
     filter (\<lambda>t. t \<in> set prev \<and> t \<in> set new) (allTags w') =
       filter (\<lambda>t. t \<in> set prev \<and> t \<in> set new) (allTags w)"
proof -
  let ?add = "toAdd prev new" and ?rem = "toRemove prev new"
  let ?es = "(if ?add = [] then [] else [Added ?add]) @ removals ?rem (allTags w @ ?add)"
  let ?u = "updateTags s (updateRightMenu s (updateLeftMenu s w))"
  have n: "newDefaultTags s = new"
    using assms(4) by (simp add: newDefaultTags_def)
  have disj: "set ?rem \<inter> set ?add = {}"
    by (auto simp: toAdd_def toRemove_def)
  have "distinct ?rem" "set ?rem \<subseteq> set (allTags w @ ?add)"
    using assms(5,6) by (auto simp: toRemove_def)
  from remove_present [OF this]
  have rv: "removeValues ?rem (allTags w @ ?add) = fold remove1 ?rem (allTags w @ ?add)"
    and rs: "removals ?rem (allTags w @ ?add) = map (\<lambda>v. Removed [v]) ?rem"
    by simp_all
  have all: "allTags ?u = fold remove1 ?rem (allTags w) @ ?add"
    using assms(3) n disj rv by (simp add: allTags_updateTags fold_remove1_append_notin)
  have tr: "tagChanges (trace ?u) = tagChanges (trace w) @ ?es"
    using assms(3) n by (simp add: tagChanges_updateTags)
  obtain w' where w': "updateLeftSpace ?u = Inr w'"
    and fr: "allTags w' = allTags ?u" "previousDefaultTags w' = previousDefaultTags ?u"
      "tagChanges (trace w') = tagChanges (trace ?u)"
    using assms(2) by (simp add: updateLeftSpace_Some)
  have 1: "onSettingsChanged w = Inr w'"
    using assms(1) w' by (simp add: onSettingsChanged_def)
  have 2: "addedValues ?es = filter (\<lambda>t. t \<notin> set prev) new"
    by (simp add: toAdd_def)
  have 3: "removedValues ?es = filter (\<lambda>t. t \<notin> set new) prev"
    by (simp add: rs) (simp add: toRemove_def)
  have 4: "filter (\<lambda>t. t \<in> set prev \<and> t \<in> set new) (allTags w') =
       filter (\<lambda>t. t \<in> set prev \<and> t \<in> set new) (allTags w)"
  proof -
    have "filter (\<lambda>t. t \<in> set prev \<and> t \<in> set new) ?add = []"
      by (auto simp: toAdd_def filter_empty_conv)
    moreover have "filter (\<lambda>t. t \<in> set prev \<and> t \<in> set new) (fold remove1 ?rem (allTags w)) =
       filter (\<lambda>t. t \<in> set prev \<and> t \<in> set new) (allTags w)"
      by (rule filter_fold_remove1) (auto simp: toRemove_def)
    ultimately show ?thesis
      by (simp add: fr all)
  qed
  have 5: "previousDefaultTags w' = new"
    using n by (simp add: fr)
  have 6: "tagChanges (trace w') = tagChanges (trace w) @ ?es"
    by (simp add: fr tr)
  have 7: "allTags w' = fold remove1 (filter (\<lambda>t. t \<notin> set new) prev) (allTags w)
        @ filter (\<lambda>t. t \<notin> set prev) new"
    by (simp add: fr all) (simp add: toAdd_def toRemove_def)
  from 1 2 3 4 5 6 7 show ?thesis
    by blast
qed

text \<open>
  Claim C4. The update is not a true diff on every settings change. The handler calls
  \<open>removeValue\<close> once for every occurrence of a previous tag that is not a new one, with
  no test that the tag is still in the collection. With default tags x, a at
  construction, then x, a, a, then x, the last change calls it twice for a: the first
  call removes a, the second finds no a and removes the last element, the tag x, which
  is in both lists. The collection ends empty while x is a default tag.
\<close>

theorem duplicate_default_tag_removes_kept_tag:
  "map_sum id (\<lambda>w. (allTags w, previousDefaultTags w, tagChanges (trace w)))
     (session [] [] (settingsOf (noMenus\<lparr>defaultTags := Some [''x'', ''a'']\<rparr>))
        [SettingsChanged (noMenus\<lparr>defaultTags := Some [''x'', ''a'', ''a'']\<rparr>),
         SettingsChanged (noMenus\<lparr>defaultTags := Some [''x'']\<rparr>)]) =
   Inr ([], [''x''], [Added [''x'', ''a''], Removed [''a''], Removed [''x'']])"
  by code_simp

text \<open>
  The example of the spec, previous tags a, b and new tags b, c on the collection a, b:
  only c is added, only a is removed, and the collection becomes b, c.
\<close>

lemma defaultTags_example:
  "map_sum id (\<lambda>w. (allTags w, previousDefaultTags w, tagChanges (trace w)))
     (onSettingsChanged tagsAB) =
   Inr ([''b'', ''c''], [''b'', ''c''], [Added [''c''], Removed [''a'']])"
  by code_simp

section \<open>Cell widgets and their toolbars\<close>

lemma map_model_modifyCell [simp]: "map model (modifyCell m f cs) = map model cs"
  by (induction cs) auto

lemma cellOf_modifyCell:
  "cellOf m' (modifyCell m f cs) =
     (if m' = m then map_option (\<lambda>c. c\<lparr>layout := f (layout c)\<rparr>) (cellOf m cs)
      else cellOf m' cs)"
  by (induction cs) (auto simp: cellOf_def)

lemma modifyCell_None: "cellOf m cs = None \<Longrightarrow> modifyCell m f cs = cs"
  by (induction cs) (auto simp: cellOf_def split: if_splits)

lemma modifyCell_comp: "modifyCell m g (modifyCell m f cs) = modifyCell m (g \<circ> f) cs"
  by (induction cs) auto

lemma modifyCell_cong_layout:
  "cellOf m cs = Some c \<Longrightarrow> f (layout c) = g (layout c) \<Longrightarrow> modifyCell m f cs = modifyCell m g cs"
  by (induction cs) (auto simp: cellOf_def split: if_splits)

lemma fold_remove1_filter_aux:
  "\<forall>z \<in> set zs. \<not> P z \<Longrightarrow> fold remove1 (filter P xs) (zs @ xs) = zs @ filter (\<lambda>x. \<not> P x) xs"
proof (induction xs arbitrary: zs)
  case Nil
  then show ?case by simp
next
  case (Cons x xs)
  show ?case
  proof (cases "P x")
    case True
    with Cons.prems have "x \<notin> set zs" by auto
    then have "remove1 x (zs @ x # xs) = zs @ xs"
      by (simp add: remove1_append)
    with True Cons.IH [OF Cons.prems] show ?thesis by simp
  next
    case False
    with Cons.prems have "\<forall>z \<in> set (zs @ [x]). \<not> P z" by auto
    from Cons.IH [OF this] False show ?thesis by simp
  qed
qed

lemma fold_remove1_filter:
  "fold remove1 (filter P xs) xs = filter (\<lambda>x. \<not> P x) xs"
  using fold_remove1_filter_aux [of "[]" P xs] by simp

lemma fold_disposeWidget:
  "fold (disposeWidget m) xs w =
     w\<lparr>widgets := modifyCell m (fold remove1 xs) (widgets w),
       trace := trace w @ map (WidgetDisposed m) xs\<rparr>"
proof (induction xs arbitrary: w)
  case Nil
  have "modifyCell m (\<lambda>l. l) cs = cs" for cs
    by (induction cs) auto
  then show ?case by (simp add: id_def)
next
  case (Cons x xs)
  have "fold (disposeWidget m) (x # xs) w = fold (disposeWidget m) xs (disposeWidget m x w)"
    by simp
  also have "\<dots> = (disposeWidget m x w)\<lparr>widgets := modifyCell m (fold remove1 xs) (widgets (disposeWidget m x w)),
       trace := trace (disposeWidget m x w) @ map (WidgetDisposed m) xs\<rparr>"
    by (rule Cons.IH)
  also have "\<dots> = w\<lparr>widgets := modifyCell m (fold remove1 (x # xs)) (widgets w),
       trace := trace w @ map (WidgetDisposed m) (x # xs)\<rparr>"
    by (simp add: disposeWidget_def modifyCell_comp o_def)
  finally show ?case .
qed

lemma getCell_Some: "panel w = Some p \<Longrightarrow> getCell m w = Inr (cellOf m (widgets w))"
  by (simp add: getCell_def cellOf_def)

lemma removeToolbar_eq:
  assumes "panel w = Some p"
  shows "removeToolbar m w =
    Inr (w\<lparr>widgets := modifyCell m stripToolbars (widgets w),
           trace := trace w @ map (WidgetDisposed m)
             (case cellOf m (widgets w) of None \<Rightarrow> [] | Some c \<Rightarrow> findToolbarWidgets c)\<rparr>)"
proof (cases "cellOf m (widgets w)")
  case None
  then show ?thesis
    using assms by (simp add: removeToolbar_def getCell_Some modifyCell_None)
next
  case (Some c)
  have "modifyCell m (fold remove1 (findToolbarWidgets c)) (widgets w) =
        modifyCell m stripToolbars (widgets w)"
    by (rule modifyCell_cong_layout [OF Some])
       (simp add: findToolbarWidgets_def stripToolbars_def fold_remove1_filter)
  with Some show ?thesis
    using assms by (simp add: removeToolbar_def getCell_Some fold_disposeWidget)
qed

lemma fold_addButton:
  "fold (addButton m) es w =
     w\<lparr>widgets := modifyCell m (\<lambda>l. l @ map (positionedButton (commands w))
           (filter (\<lambda>entry. hasCommand (commands w) (command entry)) es)) (widgets w),
       trace := trace w @ map (WidgetAdded m) (map (positionedButton (commands w))
           (filter (\<lambda>entry. hasCommand (commands w) (command entry)) es))\<rparr>"
proof (induction es arbitrary: w)
  case Nil
  have "modifyCell m (\<lambda>l. l) cs = cs" for cs
    by (induction cs) auto
  then show ?case by simp
next
  case (Cons e es)
  have "fold (addButton m) (e # es) w = fold (addButton m) es (addButton m e w)"
    by simp
  also have "\<dots> = (addButton m e w)\<lparr>widgets := modifyCell m (\<lambda>l. l @ map (positionedButton (commands (addButton m e w)))
           (filter (\<lambda>entry. hasCommand (commands (addButton m e w)) (command entry)) es)) (widgets (addButton m e w)),
       trace := trace (addButton m e w) @ map (WidgetAdded m) (map (positionedButton (commands (addButton m e w)))
           (filter (\<lambda>entry. hasCommand (commands (addButton m e w)) (command entry)) es))\<rparr>"
    by (rule Cons.IH)
  also have "\<dots> = w\<lparr>widgets := modifyCell m (\<lambda>l. l @ map (positionedButton (commands w))
           (filter (\<lambda>entry. hasCommand (commands w) (command entry)) (e # es))) (widgets w),
       trace := trace w @ map (WidgetAdded m) (map (positionedButton (commands w))
           (filter (\<lambda>entry. hasCommand (commands w) (command entry)) (e # es)))\<rparr>"
    by (simp add: addButton_def addWidget_def modifyCell_comp o_def)
  finally show ?case .
qed

lemma addToolbar_eq:
  assumes "panel w = Some p"
  shows "addToolbar m w =
    Inr (case cellOf m (widgets w) of
           None \<Rightarrow> w
         | Some c \<Rightarrow>
             w\<lparr>widgets := modifyCell m (\<lambda>l. toolbarFor m w # l @ buttonsFor w) (widgets w),
               trace := trace w @ WidgetInserted m 0 (toolbarFor m w) #
                  map (WidgetAdded m) (buttonsFor w)\<rparr>)"
  using assms
  by (cases "cellOf m (widgets w)")
     (simp_all add: addToolbar_def getCell_Some fold_addButton insertWidget_def
        modifyCell_comp o_def toolbarFor_def buttonsFor_def Let_def)

lemma cellOf_None_iff: "cellOf m cs = None \<longleftrightarrow> \<not> rendered m cs"
  by (induction cs) (auto simp: cellOf_def rendered_def)

lemma rendered_modifyCell [simp]: "rendered m' (modifyCell m f cs) = rendered m' cs"
  by (simp add: rendered_def)

lemma forEach_removeToolbar:
  "panel w = Some p \<Longrightarrow>
   forEach removeToolbar ms w =
     Inr (w\<lparr>widgets := fold (\<lambda>m. modifyCell m stripToolbars) ms (widgets w),
            trace := trace w @ disposals ms (widgets w)\<rparr>)"
proof (induction ms arbitrary: w)
  case Nil
  then show ?case by simp
next
  case (Cons m ms)
  let ?w1 = "w\<lparr>widgets := modifyCell m stripToolbars (widgets w),
           trace := trace w @ map (WidgetDisposed m)
             (case cellOf m (widgets w) of None \<Rightarrow> [] | Some c \<Rightarrow> findToolbarWidgets c)\<rparr>"
  have 1: "removeToolbar m w = Inr ?w1"
    by (rule removeToolbar_eq [OF Cons.prems])
  have "panel ?w1 = Some p"
    using Cons.prems by simp
  from Cons.IH [OF this] 1 show ?case
    by simp
qed

lemma addToolbar_decorate:
  assumes "panel w = Some p"
  shows "addToolbar m w =
    Inr (w\<lparr>widgets := modifyCell m (decorate w m) (widgets w),
           trace := trace w @ attachments w m\<rparr>)"
proof (cases "cellOf m (widgets w)")
  case None
  then show ?thesis
    using assms cellOf_None_iff [of m "widgets w"]
    by (simp add: addToolbar_eq attachments_def modifyCell_None)
next
  case (Some c)
  then show ?thesis
    using assms cellOf_None_iff [of m "widgets w"]
    by (simp add: addToolbar_eq attachments_def decorate_def [abs_def])
qed

lemma forEach_addToolbar:
  "panel w = Some p \<Longrightarrow>
   forEach addToolbar ms w =
     Inr (w\<lparr>widgets := fold (\<lambda>m. modifyCell m (decorate w m)) ms (widgets w),
            trace := trace w @ concat (map (attachments w) ms)\<rparr>)"
proof (induction ms arbitrary: w)
  case Nil
  then show ?case by simp
next
  case (Cons m ms)
  let ?w1 = "w\<lparr>widgets := modifyCell m (decorate w m) (widgets w),
           trace := trace w @ attachments w m\<rparr>"
  have 1: "addToolbar m w = Inr ?w1"
    by (rule addToolbar_decorate [OF Cons.prems])
  have 2: "panel ?w1 = Some p"
    using Cons.prems by simp
  have 3: "decorate ?w1 = decorate w" "attachments ?w1 = attachments w"
    by (auto simp: decorate_def attachments_def toolbarFor_def buttonsFor_def fun_eq_iff)
  from Cons.IH [OF 2] 1 3 show ?case
    by simp
qed

lemma updateConnectedCells_eq:
  assumes "panel w = Some p"
  shows "updateConnectedCells cells changed w =
     Inr (w\<lparr>widgets := fold (\<lambda>m. modifyCell m (decorate w m)) (newValues changed)
                         (fold (\<lambda>m. modifyCell m stripToolbars) (oldValues changed) (widgets w)),
            trace := trace w @ disposals (oldValues changed) (widgets w)
                       @ concat (map (attachments w) (newValues changed))\<rparr>)"
proof -
  let ?w1 = "w\<lparr>widgets := fold (\<lambda>m. modifyCell m stripToolbars) (oldValues changed) (widgets w),
            trace := trace w @ disposals (oldValues changed) (widgets w)\<rparr>"
  have 1: "forEach removeToolbar (oldValues changed) w = Inr ?w1"
    by (rule forEach_removeToolbar [OF assms])
  have 2: "panel ?w1 = Some p"
    using assms by simp
  have r: "rendered m (fold (\<lambda>m. modifyCell m stripToolbars) ms cs) = rendered m cs" for m ms cs
    by (induction ms arbitrary: cs) simp_all
  have 3: "decorate ?w1 = decorate w" "attachments ?w1 = attachments w"
    by (auto simp: decorate_def attachments_def toolbarFor_def buttonsFor_def fun_eq_iff r)
  show ?thesis
    unfolding updateConnectedCells_def
    by (simp add: 1 forEach_addToolbar [OF 2] 3)
qed

lemma stripToolbars_idem [simp]: "stripToolbars (stripToolbars l) = stripToolbars l"
  by (simp add: stripToolbars_def)

lemma cellOf_fold_strip:
  "cellOf m (fold (\<lambda>k. modifyCell k stripToolbars) ms cs) =
     (if m \<in> set ms
      then map_option (\<lambda>c. c\<lparr>layout := stripToolbars (layout c)\<rparr>) (cellOf m cs)
      else cellOf m cs)"
proof (induction ms arbitrary: cs)
  case Nil
  then show ?case by simp
next
  case (Cons k ms)
  show ?case
    by (simp add: Cons.IH cellOf_modifyCell option.map_comp o_def)
qed

lemma cellOf_fold_modify:
  "cellOf m (fold (\<lambda>k. modifyCell k (g k)) ms cs) =
     map_option (\<lambda>c. c\<lparr>layout := ((g m) ^^ count_list ms m) (layout c)\<rparr>) (cellOf m cs)"
proof (induction ms arbitrary: cs)
  case Nil
  then show ?case by (simp add: option.map_ident)
next
  case (Cons k ms)
  show ?case
    by (simp add: Cons.IH cellOf_modifyCell option.map_comp o_def funpow_swap1)
qed

lemma map_model_fold_modifyCell [simp]:
  "map model (fold (\<lambda>k. modifyCell k (g k)) ms cs) = map model cs"
  by (induction ms arbitrary: cs) simp_all

lemma cellOf_updateConnectedCells:
  assumes "panel w = Some p" and "updateConnectedCells cells changed w = Inr w'"
  shows "cellOf m (widgets w') =
     map_option (\<lambda>c. c\<lparr>layout := ((decorate w m) ^^ count_list (newValues changed) m)
         (if m \<in> set (oldValues changed) then stripToolbars (layout c) else layout c)\<rparr>)
       (cellOf m (widgets w))"
proof -
  let ?stripped = "fold (\<lambda>m. modifyCell m stripToolbars) (oldValues changed) (widgets w)"
  have "widgets w' = fold (\<lambda>m. modifyCell m (decorate w m)) (newValues changed) ?stripped"
    using assms(2) unfolding updateConnectedCells_eq [OF assms(1)] by auto
  then have "cellOf m (widgets w') =
     map_option (\<lambda>c. c\<lparr>layout := ((decorate w m) ^^ count_list (newValues changed) m) (layout c)\<rparr>)
       (cellOf m ?stripped)"
    by (simp only: cellOf_fold_modify [of m "decorate w"])
  then show ?thesis
    by (simp add: cellOf_fold_strip option.map_comp o_def)
qed

lemma filter_isToolbarFor_strip [simp]: "filter (isToolbarFor m) (stripToolbars l) = []"
  by (auto simp: stripToolbars_def isToolbarFor_def filter_empty_conv)

lemma hasClass_addClass [simp]: "hasClass c (addClass c x)"
  by (simp add: hasClass_def addClass_def)

lemma body_addClass [simp]: "body (addClass c x) = body x"
  by (simp add: addClass_def)

lemma isToolbarFor_toolbarFor [simp]: "isToolbarFor m (toolbarFor m w)"
  by (simp add: isToolbarFor_def toolbarFor_def)

lemma isToolbarFor_buttons [simp]: "filter (isToolbarFor m) (buttonsFor w) = []"
  by (auto simp: filter_empty_conv buttonsFor_def isToolbarFor_def positionedButton_def Let_def)

lemma length_toolbars_decorate:
  "length (filter (isToolbarFor m) (((decorate w m) ^^ k) l)) = k + length (filter (isToolbarFor m) l)"
  by (induction k) (simp_all add: decorate_def)

lemma cellOf_SomeD: "cellOf m cs = Some c \<Longrightarrow> c \<in> set cs \<and> model c = m"
  by (induction cs) (auto simp: cellOf_def split: if_splits)

lemma cellOf_distinct: "distinct (map model cs) \<Longrightarrow> c \<in> set cs \<Longrightarrow> cellOf (model c) cs = Some c"
  by (induction cs) (auto simp: cellOf_def)


section \<open>Cell-list changes\<close>

lemma modifyCell_unrendered: "\<not> rendered m cs \<Longrightarrow> modifyCell m f cs = cs"
  by (simp add: modifyCell_None cellOf_None_iff)

lemma rendered_fold_modifyCell [simp]:
  "rendered m (fold (\<lambda>k. modifyCell k (g k)) ms cs) = rendered m cs"
  by (simp add: rendered_def)

lemma fold_modifyCell_rendered:
  "fold (\<lambda>k. modifyCell k (g k)) (filter (\<lambda>m. rendered m cs) ms) cs =
   fold (\<lambda>k. modifyCell k (g k)) ms cs"
proof (induction ms arbitrary: cs)
  case Nil
  then show ?case by simp
next
  case (Cons k ms)
  from Cons.IH [of "modifyCell k (g k) cs"] show ?case
    by (cases "rendered k cs") (simp_all add: modifyCell_unrendered)
qed

lemma disposals_rendered:
  "disposals (filter (\<lambda>m. rendered m cs) ms) cs = disposals ms cs"
proof (induction ms arbitrary: cs)
  case Nil
  then show ?case by simp
next
  case (Cons k ms)
  from Cons.IH [of "modifyCell k stripToolbars cs"] cellOf_None_iff [of k cs] show ?case
    by (cases "rendered k cs") (simp_all add: modifyCell_unrendered)
qed

lemma attachments_rendered:
  "concat (map (attachments w) (filter (\<lambda>m. rendered m (widgets w)) ms)) =
   concat (map (attachments w) ms)"
  by (induction ms) (simp_all add: attachments_def)

lemma updateConnectedCells_rendered:
  assumes "panel w = Some p"
  shows "updateConnectedCells cells
           \<lparr>oldValues = filter (\<lambda>m. rendered m (widgets w)) (oldValues changed),
            newValues = filter (\<lambda>m. rendered m (widgets w)) (newValues changed)\<rparr> w =
         updateConnectedCells cells changed w"
proof -
  let ?stripped = "fold (\<lambda>k. modifyCell k stripToolbars) (oldValues changed) (widgets w)"
  have "fold (\<lambda>k. modifyCell k (decorate w k))
          (filter (\<lambda>m. rendered m ?stripped) (newValues changed)) ?stripped =
        fold (\<lambda>k. modifyCell k (decorate w k)) (newValues changed) ?stripped"
    by (rule fold_modifyCell_rendered)
  then have "fold (\<lambda>k. modifyCell k (decorate w k))
          (filter (\<lambda>m. rendered m (widgets w)) (newValues changed)) ?stripped =
        fold (\<lambda>k. modifyCell k (decorate w k)) (newValues changed) ?stripped"
    by simp
  then show ?thesis
    by (simp add: updateConnectedCells_eq [OF assms] fold_modifyCell_rendered
        disposals_rendered attachments_rendered)
qed

text \<open>
  Claim C8. When \<open>_getCell\<close> finds no widget for a cell model, \<open>_addToolbar\<close> and
  \<open>_removeToolbar\<close> both return normally and leave the whole state as it was: no widget
  is created, none is disposed, nothing is added to the trace. So a cell-list change is
  handled as if it carried only the models that have a widget on the panel.
\<close>

theorem unrendered_model_is_noop:
  "(getCell m w = Inr None \<longrightarrow> addToolbar m w = Inr w \<and> removeToolbar m w = Inr w) \<and>
   (panel w \<noteq> None \<longrightarrow>
      updateConnectedCells cells changed w =
      updateConnectedCells cells
        \<lparr>oldValues = filter (\<lambda>m. rendered m (widgets w)) (oldValues changed),
         newValues = filter (\<lambda>m. rendered m (widgets w)) (newValues changed)\<rparr> w)"
proof (intro conjI impI)
  assume "getCell m w = Inr None"
  then show "addToolbar m w = Inr w" and "removeToolbar m w = Inr w"
    by (simp_all add: addToolbar_def removeToolbar_def)
next
  assume "panel w \<noteq> None"
  then obtain p where "panel w = Some p"
    by blast
  then show "updateConnectedCells cells changed w =
      updateConnectedCells cells
        \<lparr>oldValues = filter (\<lambda>m. rendered m (widgets w)) (oldValues changed),
         newValues = filter (\<lambda>m. rendered m (widgets w)) (newValues changed)\<rparr> w"
    by (simp only: updateConnectedCells_rendered)
qed

text \<open>
  Cell 2 has no widget on a panel that shows cell 1: an event that removes cell 2 and
  adds cells 2 and 1 is handled as the event that adds cell 1.
\<close>

theorem unrendered_model_is_noop_witness:
  "getCell 2 undecorated = Inr None \<and>
   addToolbar 2 undecorated = Inr undecorated \<and>
   removeToolbar 2 undecorated = Inr undecorated \<and>
   panel undecorated \<noteq> None \<and>
   updateConnectedCells [1, 2] \<lparr>oldValues = [2], newValues = [2, 1]\<rparr> undecorated =
   updateConnectedCells [1, 2] \<lparr>oldValues = [], newValues = [1]\<rparr> undecorated"
proof -
  have g: "getCell 2 undecorated = Inr None"
    by code_simp
  have p: "panel undecorated \<noteq> None"
    by (simp add: undecorated_def initial_def)
  have f: "filter (\<lambda>m. rendered m (widgets undecorated)) [2] = []"
    "filter (\<lambda>m. rendered m (widgets undecorated)) [2, 1] = [1]"
    by code_simp+
  from unrendered_model_is_noop
    [of 2 undecorated "[1, 2]" "\<lparr>oldValues = [2], newValues = [2, 1]\<rparr>"] g p f
  show ?thesis
    by simp
qed

lemma list_all_disposals: "list_all isDisposal (disposals ms cs)"
  by (induction ms cs rule: disposals.induct) (auto simp: list_all_iff)

lemma list_all_attachments: "list_all isAttachment (concat (map (attachments w) ms))"
  by (induction ms) (auto simp: attachments_def list_all_iff)

lemma shortName_positioned:
  "shortName ''notebook:run-cell-and-select-next'' = Some ''run-cell-and-select-next''"
  "shortName ''notebook:move-cell-up'' = Some ''move-cell-up''"
  "shortName ''notebook:move-cell-down'' = Some ''move-cell-down''"
  "shortName ''notebook:insert-cell-below'' = Some ''insert-cell-below''"
  by (simp_all add: shortName_def)

lemma buttonsFor_explicit:
  "buttonsFor w =
     map (\<lambda>(i, c, n). \<lparr>classes = [''jp-enh-cell-bar'', ''jp-enh-cell-all''],
                        body = PositionedButton i c (Some n) (label (commands w) c)\<rparr>)
       (filter (\<lambda>(i, c, n). hasCommand (commands w) c)
          [(runIcon, ''notebook:run-cell-and-select-next'', ''jp-enh-cell-run-cell-and-select-next''),
           (caretUpEmptyThinIcon, ''notebook:move-cell-up'', ''jp-enh-cell-move-cell-up''),
           (caretDownEmptyThinIcon, ''notebook:move-cell-down'', ''jp-enh-cell-move-cell-down''),
           (addIcon, ''notebook:insert-cell-below'', ''jp-enh-cell-insert-cell-below'')])"
  by (simp add: buttonsFor_def POSITIONED_BUTTONS_def positionedButton_def shortName_positioned
      cellTypeName_def addClass_def CELL_BAR_CLASS_def Let_def)

lemma toolbarFor_explicit:
  "toolbarFor m w =
     \<lparr>classes = [''jp-enh-cell-bar''], body = CellToolbarWidget m (leftSpaceOrZero (settings w))\<rparr>"
  by (simp add: toolbarFor_def addClass_def CELL_BAR_CLASS_def)

text \<open>
  Claim C9. On a cell-list change \<open>updateConnectedCells\<close> first runs \<open>_removeToolbar\<close> over
  all removed models, reaching a state \<open>w1\<close>, and only then \<open>_addToolbar\<close> over all added
  models. The effects of the first phase are disposals only, and the trace of the event
  is these disposals followed by the attachments: for each added model that has a
  widget, the insertion of its new toolbar at index 0, then the addition of each
  positioned button. In \<open>w1\<close> the widget of every removed model has lost all its
  toolbar-class children and no other widget has changed. From \<open>w1\<close>, the widget of a
  model is decorated once for every occurrence among the added models: the new toolbar
  becomes the first child and the positioned buttons are appended. The toolbar is the
  toolbar of the model with the toolbar class; the positioned buttons are, in this
  order, run, move up, move down and insert below, each with its icon, command, class
  name, the label of its command as tooltip and the two classes, and each present when
  its command is registered.
\<close>

theorem removals_before_additions:
  assumes "panel w = Some p"
  shows "(\<exists>w1 w'. forEach removeToolbar (oldValues changed) w = Inr w1 \<and>
      forEach addToolbar (newValues changed) w1 = Inr w' \<and>
      updateConnectedCells cells changed w = Inr w' \<and>
      trace w1 = trace w @ disposals (oldValues changed) (widgets w) \<and>
      trace w' = trace w1 @ concat (map (attachments w) (newValues changed)) \<and>
      list_all isDisposal (disposals (oldValues changed) (widgets w)) \<and>
      list_all isAttachment (concat (map (attachments w) (newValues changed))) \<and>
      (\<forall>m. cellOf m (widgets w1) =
         (if m \<in> set (oldValues changed)
          then map_option (\<lambda>c. c\<lparr>layout := stripToolbars (layout c)\<rparr>) (cellOf m (widgets w))
          else cellOf m (widgets w))) \<and>
      (\<forall>m. cellOf m (widgets w') =
         map_option (\<lambda>c. c\<lparr>layout := ((decorate w m) ^^ count_list (newValues changed) m) (layout c)\<rparr>)
           (cellOf m (widgets w1)))) \<and>
    attachments w m =
      (if m \<in> set (map model (widgets w))
       then WidgetInserted m 0 (toolbarFor m w) # map (WidgetAdded m) (buttonsFor w) else []) \<and>
    decorate w m l = toolbarFor m w # l @ buttonsFor w \<and>
    toolbarFor m w =
      \<lparr>classes = [''jp-enh-cell-bar''],
       body = CellToolbarWidget m (leftSpaceOrZero (settings w))\<rparr> \<and>
    buttonsFor w =
      map (\<lambda>(i, c, n). \<lparr>classes = [''jp-enh-cell-bar'', ''jp-enh-cell-all''],
                         body = PositionedButton i c (Some n) (label (commands w) c)\<rparr>)
        (filter (\<lambda>(i, c, n). hasCommand (commands w) c)
           [(runIcon, ''notebook:run-cell-and-select-next'', ''jp-enh-cell-run-cell-and-select-next''),
            (caretUpEmptyThinIcon, ''notebook:move-cell-up'', ''jp-enh-cell-move-cell-up''),
            (caretDownEmptyThinIcon, ''notebook:move-cell-down'', ''jp-enh-cell-move-cell-down''),
            (addIcon, ''notebook:insert-cell-below'', ''jp-enh-cell-insert-cell-below'')])"
proof -
  let ?w1 = "w\<lparr>widgets := fold (\<lambda>m. modifyCell m stripToolbars) (oldValues changed) (widgets w),
            trace := trace w @ disposals (oldValues changed) (widgets w)\<rparr>"
  let ?w' = "w\<lparr>widgets := fold (\<lambda>m. modifyCell m (decorate w m)) (newValues changed) (widgets ?w1),
            trace := trace ?w1 @ concat (map (attachments w) (newValues changed))\<rparr>"
  have 1: "forEach removeToolbar (oldValues changed) w = Inr ?w1"
    by (rule forEach_removeToolbar [OF assms])
  have 2: "updateConnectedCells cells changed w = Inr ?w'"
    by (simp add: updateConnectedCells_eq [OF assms])
  from 1 2 have 3: "forEach addToolbar (newValues changed) ?w1 = Inr ?w'"
    by (simp add: updateConnectedCells_def)
  have 4: "cellOf m (widgets ?w1) =
         (if m \<in> set (oldValues changed)
          then map_option (\<lambda>c. c\<lparr>layout := stripToolbars (layout c)\<rparr>) (cellOf m (widgets w))
          else cellOf m (widgets w))" for m
    by (simp add: cellOf_fold_strip)
  have 5: "cellOf m (widgets ?w') =
         map_option (\<lambda>c. c\<lparr>layout := ((decorate w m) ^^ count_list (newValues changed) m) (layout c)\<rparr>)
           (cellOf m (widgets ?w1))" for m
    using cellOf_fold_modify [of m "decorate w" "newValues changed" "widgets ?w1"] by simp
  have 6: "trace ?w1 = trace w @ disposals (oldValues changed) (widgets w)"
    "trace ?w' = trace ?w1 @ concat (map (attachments w) (newValues changed))"
    by simp_all
  have phases: "\<exists>w1 w'. forEach removeToolbar (oldValues changed) w = Inr w1 \<and>
      forEach addToolbar (newValues changed) w1 = Inr w' \<and>
      updateConnectedCells cells changed w = Inr w' \<and>
      trace w1 = trace w @ disposals (oldValues changed) (widgets w) \<and>
      trace w' = trace w1 @ concat (map (attachments w) (newValues changed)) \<and>
      list_all isDisposal (disposals (oldValues changed) (widgets w)) \<and>
      list_all isAttachment (concat (map (attachments w) (newValues changed))) \<and>
      (\<forall>m. cellOf m (widgets w1) =
         (if m \<in> set (oldValues changed)
          then map_option (\<lambda>c. c\<lparr>layout := stripToolbars (layout c)\<rparr>) (cellOf m (widgets w))
          else cellOf m (widgets w))) \<and>
      (\<forall>m. cellOf m (widgets w') =
         map_option (\<lambda>c. c\<lparr>layout := ((decorate w m) ^^ count_list (newValues changed) m) (layout c)\<rparr>)
           (cellOf m (widgets w1)))"
    apply (rule exI [of _ ?w1])
    apply (rule exI [of _ ?w'])
    using 1 2 3 4 5 6 list_all_disposals list_all_attachments
    apply (intro conjI allI)
    apply assumption+
    done
  have a: "attachments w m =
      (if m \<in> set (map model (widgets w))
       then WidgetInserted m 0 (toolbarFor m w) # map (WidgetAdded m) (buttonsFor w) else [])"
    by (simp add: attachments_def rendered_def)
  have d: "decorate w m l = toolbarFor m w # l @ buttonsFor w"
    by (simp add: decorate_def)
  from phases a d toolbarFor_explicit [of m w] buttonsFor_explicit [of w] show ?thesis
    by (intro conjI)
qed

text \<open>
  Moving cell 1, which has its toolbar, with the four commands registered: the old
  toolbar is disposed, then a new one is inserted at index 0 and the four buttons are
  added after the content of the cell.
\<close>

theorem removals_before_additions_witness:
  "panel decoratedAll = Some NotebookPanel \<and>
   (\<exists>w'. updateConnectedCells [1] moved1 decoratedAll = Inr w' \<and>
      trace w' = WidgetDisposed 1 toolbar1 # WidgetInserted 1 0 toolbar1 # map (WidgetAdded 1) fourButtons \<and>
      map layout (widgets w') = [toolbar1 # layout cell1 @ fourButtons]) \<and>
   buttonsFor decoratedAll = fourButtons"
proof -
  have p: "panel decoratedAll = Some NotebookPanel"
    by (simp add: decoratedAll_def initial_def)
  have d: "trace decoratedAll @ disposals (oldValues moved1) (widgets decoratedAll) =
      [WidgetDisposed 1 toolbar1]"
    by code_simp
  have b: "map (\<lambda>(i, c, n). \<lparr>classes = [''jp-enh-cell-bar'', ''jp-enh-cell-all''],
                         body = PositionedButton i c (Some n) (label (commands decoratedAll) c)\<rparr>)
        (filter (\<lambda>(i, c, n). hasCommand (commands decoratedAll) c)
           [(runIcon, ''notebook:run-cell-and-select-next'', ''jp-enh-cell-run-cell-and-select-next''),
            (caretUpEmptyThinIcon, ''notebook:move-cell-up'', ''jp-enh-cell-move-cell-up''),
            (caretDownEmptyThinIcon, ''notebook:move-cell-down'', ''jp-enh-cell-move-cell-down''),
            (addIcon, ''notebook:insert-cell-below'', ''jp-enh-cell-insert-cell-below'')]) = fourButtons"
    by code_simp
  have t: "\<lparr>classes = [''jp-enh-cell-bar''],
       body = CellToolbarWidget 1 (leftSpaceOrZero (settings decoratedAll))\<rparr> = toolbar1"
    by code_simp
  have r: "(1::nat) \<in> set (map model (widgets decoratedAll))" "newValues moved1 = [1]"
    "oldValues moved1 = [1]"
    by code_simp+
  have c: "cellOf 1 (widgets decoratedAll) = Some (cell1\<lparr>layout := toolbar1 # layout cell1\<rparr>)"
    "stripToolbars (toolbar1 # layout cell1) = layout cell1"
    "map model (widgets decoratedAll) = [1]"
    by code_simp+
  note inst = removals_before_additions [OF p, of moved1 "[1]" 1]
  from inst have bf: "buttonsFor decoratedAll = fourButtons"
    and tf: "toolbarFor 1 decoratedAll = toolbar1"
    and at: "attachments decoratedAll 1 =
        WidgetInserted 1 0 toolbar1 # map (WidgetAdded 1) fourButtons"
    using b t r(1) by simp_all
  from removals_before_additions [OF p, of moved1 "[1]" 1] tf bf
  have de: "decorate decoratedAll 1 l = toolbar1 # l @ fourButtons" for l
    by simp
  from inst have "\<exists>w1 w'. forEach removeToolbar (oldValues moved1) decoratedAll = Inr w1 \<and>
      forEach addToolbar (newValues moved1) w1 = Inr w' \<and>
      updateConnectedCells [1] moved1 decoratedAll = Inr w' \<and>
      trace w1 = trace decoratedAll @ disposals (oldValues moved1) (widgets decoratedAll) \<and>
      trace w' = trace w1 @ concat (map (attachments decoratedAll) (newValues moved1)) \<and>
      list_all isDisposal (disposals (oldValues moved1) (widgets decoratedAll)) \<and>
      list_all isAttachment (concat (map (attachments decoratedAll) (newValues moved1))) \<and>
      (\<forall>m. cellOf m (widgets w1) =
         (if m \<in> set (oldValues moved1)
          then map_option (\<lambda>c. c\<lparr>layout := stripToolbars (layout c)\<rparr>) (cellOf m (widgets decoratedAll))
          else cellOf m (widgets decoratedAll))) \<and>
      (\<forall>m. cellOf m (widgets w') =
         map_option (\<lambda>c. c\<lparr>layout := ((decorate decoratedAll m) ^^ count_list (newValues moved1) m) (layout c)\<rparr>)
           (cellOf m (widgets w1)))"
    by (rule conjunct1)
  then obtain w1 w' where all: "forEach removeToolbar (oldValues moved1) decoratedAll = Inr w1 \<and>
      forEach addToolbar (newValues moved1) w1 = Inr w' \<and>
      updateConnectedCells [1] moved1 decoratedAll = Inr w' \<and>
      trace w1 = trace decoratedAll @ disposals (oldValues moved1) (widgets decoratedAll) \<and>
      trace w' = trace w1 @ concat (map (attachments decoratedAll) (newValues moved1)) \<and>
      list_all isDisposal (disposals (oldValues moved1) (widgets decoratedAll)) \<and>
      list_all isAttachment (concat (map (attachments decoratedAll) (newValues moved1))) \<and>
      (\<forall>m. cellOf m (widgets w1) =
         (if m \<in> set (oldValues moved1)
          then map_option (\<lambda>c. c\<lparr>layout := stripToolbars (layout c)\<rparr>) (cellOf m (widgets decoratedAll))
          else cellOf m (widgets decoratedAll))) \<and>
      (\<forall>m. cellOf m (widgets w') =
         map_option (\<lambda>c. c\<lparr>layout := ((decorate decoratedAll m) ^^ count_list (newValues moved1) m) (layout c)\<rparr>)
           (cellOf m (widgets w1)))"
    by (elim exE) (rule that)
  have e: "updateConnectedCells [1] moved1 decoratedAll = Inr w'"
    using all by (elim conjE)
  have t1: "trace w1 = trace decoratedAll @ disposals (oldValues moved1) (widgets decoratedAll)"
    using all by (elim conjE)
  have t2: "trace w' = trace w1 @ concat (map (attachments decoratedAll) (newValues moved1))"
    using all by (elim conjE)
  have "\<forall>m. cellOf m (widgets w1) =
         (if m \<in> set (oldValues moved1)
          then map_option (\<lambda>c. c\<lparr>layout := stripToolbars (layout c)\<rparr>) (cellOf m (widgets decoratedAll))
          else cellOf m (widgets decoratedAll))"
    using all by (elim conjE)
  then have c1: "cellOf 1 (widgets w1) =
         (if 1 \<in> set (oldValues moved1)
          then map_option (\<lambda>c. c\<lparr>layout := stripToolbars (layout c)\<rparr>) (cellOf 1 (widgets decoratedAll))
          else cellOf 1 (widgets decoratedAll))"
    by (rule spec)
  have "\<forall>m. cellOf m (widgets w') =
         map_option (\<lambda>c. c\<lparr>layout := ((decorate decoratedAll m) ^^ count_list (newValues moved1) m) (layout c)\<rparr>)
           (cellOf m (widgets w1))"
    using all by (elim conjE)
  then have c2: "cellOf 1 (widgets w') =
         map_option (\<lambda>c. c\<lparr>layout := ((decorate decoratedAll 1) ^^ count_list (newValues moved1) 1) (layout c)\<rparr>)
           (cellOf 1 (widgets w1))"
    by (rule spec)
  have tr: "trace w' = WidgetDisposed 1 toolbar1 # WidgetInserted 1 0 toolbar1 # map (WidgetAdded 1) fourButtons"
    using t1 t2 d at r by simp
  have "cellOf 1 (widgets w') = Some (cell1\<lparr>layout := toolbar1 # layout cell1 @ fourButtons\<rparr>)"
    using c1 c2 c r de by simp
  moreover have "map model (widgets w') = [1]"
    using e c(3) p by (auto simp: updateConnectedCells_eq)
  ultimately have "map layout (widgets w') = [toolbar1 # layout cell1 @ fourButtons]"
    by (cases "widgets w'") (auto simp: cellOf_def split: if_splits)
  with p e tr bf show ?thesis
    by (intro conjI exI [of _ w'])
qed

lemma toolbarInstances_after:
  assumes "panel w = Some p" and "updateConnectedCells cells changed w = Inr w'"
    and "cellOf m (widgets w') = Some c'"
  shows "\<exists>c. cellOf m (widgets w) = Some c \<and>
     length (toolbarInstances c') =
       count_list (newValues changed) m +
       (if m \<in> set (oldValues changed) then 0 else length (toolbarInstances c))"
proof -
  from assms(3) cellOf_updateConnectedCells [OF assms(1,2), of m]
  obtain c where c: "cellOf m (widgets w) = Some c"
    and c': "c' = c\<lparr>layout := ((decorate w m) ^^ count_list (newValues changed) m)
         (if m \<in> set (oldValues changed) then stripToolbars (layout c) else layout c)\<rparr>"
    by auto
  from c have "model c = m"
    by (simp add: cellOf_SomeD)
  with c' have "length (toolbarInstances c') =
       count_list (newValues changed) m +
       (if m \<in> set (oldValues changed) then 0 else length (toolbarInstances c))"
    by (simp add: toolbarInstances_def length_toolbars_decorate)
  with c show ?thesis by blast
qed

lemma count_list_distinct: "distinct xs \<Longrightarrow> count_list xs x = (if x \<in> set xs then 1 else 0)"
  by (induction xs) auto

text \<open>
  One event. Let the panel's widgets show distinct models, with exactly one Toolbar
  Instance on the widget of every cell of the list \<open>cells0\<close> before the change and none on
  any other widget. Let the event add each model once and only models that are not in the
  notebook or that it also removes, and let \<open>cells\<close>, the list after the change, hold the
  cells that stay and the added ones. If every cell of \<open>cells\<close> has a widget when the event
  is handled, then \<open>updateConnectedCells\<close> returns and toolbars and live cells correspond
  one to one afterwards.
\<close>

lemma updateConnectedCells_correspondence:
  assumes "panel w = Some p"
    and "toolbarsMatch cells0 (widgets w)"
    and "distinct (newValues changed)"
    and "set (newValues changed) \<inter> (set cells0 - set (oldValues changed)) = {}"
    and "set cells = (set cells0 - set (oldValues changed)) \<union> set (newValues changed)"
    and "list_all (\<lambda>m. rendered m (widgets w)) cells"
  shows "\<exists>w'. updateConnectedCells cells changed w = Inr w' \<and> correspondence cells (widgets w')"
proof -
  obtain w' where w': "updateConnectedCells cells changed w = Inr w'"
    and ms: "map model (widgets w') = map model (widgets w)"
    by (simp add: updateConnectedCells_eq [OF assms(1)])
  from assms(2) have d: "distinct (map model (widgets w))"
    by (simp add: toolbarsMatch_def)
  have "length (toolbarInstances c') = (if model c' \<in> set cells then 1 else 0)"
    if "c' \<in> set (widgets w')" for c'
  proof -
    let ?m = "model c'"
    from d ms that have "cellOf ?m (widgets w') = Some c'"
      by (simp add: cellOf_distinct)
    from toolbarInstances_after [OF assms(1) w' this]
    obtain c where c: "cellOf ?m (widgets w) = Some c"
      and n: "length (toolbarInstances c') =
       count_list (newValues changed) ?m +
       (if ?m \<in> set (oldValues changed) then 0 else length (toolbarInstances c))"
      by blast
    from c have "c \<in> set (widgets w)" "model c = ?m"
      by (simp_all add: cellOf_SomeD)
    with assms(2) have "length (toolbarInstances c) = (if ?m \<in> set cells0 then 1 else 0)"
      by (auto simp: toolbarsMatch_def list_all_iff)
    with n assms(3,4,5) show ?thesis
      by (auto simp: count_list_distinct)
  qed
  moreover have "rendered m (widgets w') = rendered m (widgets w)" for m
    by (simp add: rendered_def ms)
  ultimately have "correspondence cells (widgets w')"
    using d ms assms(6) by (simp add: correspondence_def toolbarsMatch_def list_all_iff)
  with w' show ?thesis by blast
qed


lemma isToolbarFor_setSpacer [simp]: "isToolbarFor m (setSpacer n x) = isToolbarFor m x"
  by (cases "body x") (simp_all add: isToolbarFor_def setSpacer_def hasClass_def)

lemma toolbarInstances_setSpacer [simp]:
  "length (toolbarInstances (c\<lparr>layout := map (setSpacer n) (layout c)\<rparr>)) = length (toolbarInstances c)"
  by (simp add: toolbarInstances_def filter_map o_def)

lemma toolbarsMatch_setSpacer:
  "toolbarsMatch live (map (\<lambda>c. c\<lparr>layout := map (setSpacer n) (layout c)\<rparr>) cs) = toolbarsMatch live cs"
  by (simp add: toolbarsMatch_def list_all_iff o_def)

lemma onSettingsChanged_widgets:
  assumes "settings w = Some s" and "panel w = Some p"
  shows "\<exists>w'. onSettingsChanged w = Inr w' \<and> settings w' = settings w \<and> panel w' = panel w \<and>
     isDisposed w' = isDisposed w \<and> cellsSlot w' = cellsSlot w \<and> settingsSlot w' = settingsSlot w \<and>
     widgets w' = map (\<lambda>c. c\<lparr>layout := map (setSpacer (leftSpaceOrZero (settings w))) (layout c)\<rparr>) (widgets w)"
  using assms by (simp add: onSettingsChanged_def updateLeftSpace_Some)

lemma tracking_construct:
  assumes "toolbarsMatch live ws" and "new_CellToolbarTracker ws reg s = Inr w0"
  shows "tracking live w0"
proof (cases s)
  case None
  with assms show ?thesis
    by (auto simp: new_CellToolbarTracker_def initial_def tracking_def consistent_def)
next
  case (Some st)
  have i: "settings (initial ws reg s) = Some st" "panel (initial ws reg s) = Some NotebookPanel"
    using Some by (simp_all add: initial_def)
  from onSettingsChanged_widgets [OF i]
  obtain w1 where w1: "onSettingsChanged (initial ws reg s) = Inr w1"
    "settings w1 = settings (initial ws reg s)" "panel w1 = panel (initial ws reg s)"
    "isDisposed w1 = isDisposed (initial ws reg s)"
    "widgets w1 = map (\<lambda>c. c\<lparr>layout := map (setSpacer (leftSpaceOrZero (settings (initial ws reg s)))) (layout c)\<rparr>)
       (widgets (initial ws reg s))"
    by blast
  from w1(1) assms(2) Some have "w0 = w1\<lparr>settingsSlot := True, cellsSlot := True\<rparr>"
    by (simp add: new_CellToolbarTracker_def Let_def initial_def)
  with w1 assms(1) Some show ?thesis
    by (simp add: tracking_def consistent_def toolbarsMatch_setSpacer initial_def)
qed

lemma tracking_step:
  assumes "tracking live w" and "allowed live w e"
  shows "\<exists>w'. deliver e w = Inr w' \<and> tracking (liveNext live e) w' \<and>
     (\<forall>cells changed. e = CellsChanged cells changed \<longrightarrow> correspondence cells (widgets w'))"
proof (cases e)
  case (CellsChanged cells changed)
  from assms(1) obtain p where p: "panel w = Some p"
    by (auto simp: tracking_def consistent_def)
  from assms(1) have t: "toolbarsMatch live (widgets w)" and c: "cellsSlot w"
    by (simp_all add: tracking_def)
  from assms(2) CellsChanged
  have a: "distinct (newValues changed)"
    "set (newValues changed) \<inter> (set live - set (oldValues changed)) = {}"
    "set cells = (set live - set (oldValues changed)) \<union> set (newValues changed)"
    "list_all (\<lambda>m. rendered m (widgets w)) cells"
    by (auto simp: list_all_iff)
  from updateConnectedCells_correspondence [OF p t a]
  obtain w' where w': "updateConnectedCells cells changed w = Inr w'"
    "correspondence cells (widgets w')"
    by blast
  from w'(1) have "consistent w' = consistent w" "isDisposed w' = isDisposed w"
    "cellsSlot w' = cellsSlot w"
    unfolding updateConnectedCells_eq [OF p] by (auto simp: consistent_def)
  with assms(1) w' have "tracking cells w'"
    by (simp add: tracking_def correspondence_def)
  with w' c CellsChanged show ?thesis
    by simp
next
  case (SettingsChanged c)
  let ?w1 = "w\<lparr>settings := map_option (\<lambda>s. s\<lparr>composite := c\<rparr>) (settings w)\<rparr>"
  have t1: "tracking live ?w1"
    using assms(1) by (auto simp: tracking_def consistent_def)
  show ?thesis
  proof (cases "settingsSlot w")
    case True
    with t1 obtain st p where "settings ?w1 = Some st" "panel ?w1 = Some p"
      by (auto simp: tracking_def consistent_def)
    from onSettingsChanged_widgets [OF this]
    obtain w' where w': "onSettingsChanged ?w1 = Inr w'" "settings w' = settings ?w1"
      "panel w' = panel ?w1" "isDisposed w' = isDisposed ?w1" "cellsSlot w' = cellsSlot ?w1"
      "settingsSlot w' = settingsSlot ?w1"
      "widgets w' = map (\<lambda>c. c\<lparr>layout := map (setSpacer (leftSpaceOrZero (settings ?w1))) (layout c)\<rparr>)
         (widgets ?w1)"
      by blast
    from w'(2-7) t1 have "tracking live w'"
      by (simp add: tracking_def consistent_def toolbarsMatch_setSpacer)
    with w'(1) SettingsChanged True show ?thesis
      by (simp add: Let_def)
  next
    case False
    with t1 SettingsChanged show ?thesis
      by (simp add: Let_def)
  qed
next
  case Dispose
  with assms(2) show ?thesis by simp
next
  case (HostRender ws)
  from assms(1) have t: "toolbarsMatch live (widgets w)"
    by (simp add: tracking_def)
  have "length (toolbarInstances c) = (if model c \<in> set live then 1 else 0)" if "c \<in> set ws" for c
  proof -
    from that assms(2) HostRender
    consider c0 where "c0 \<in> set (widgets w)" "model c0 = model c"
        "toolbarInstances c0 = toolbarInstances c"
      | "model c \<notin> set live" "toolbarInstances c = []"
      by (auto simp: list_all_iff list_ex_iff)
    then show ?thesis
    proof cases
      case 1
      with t show ?thesis
        by (auto simp: toolbarsMatch_def list_all_iff)
    next
      case 2
      then show ?thesis by simp
    qed
  qed
  with assms(2) HostRender have "toolbarsMatch live ws"
    by (simp add: toolbarsMatch_def list_all_iff)
  with assms(1) HostRender show ?thesis
    by (simp add: tracking_def consistent_def)
qed

lemma tracking_run:
  assumes "tracking live w" and "admissible live w (evs @ [CellsChanged cells changed])"
  shows "\<exists>w'. run (evs @ [CellsChanged cells changed]) w = Inr w' \<and> correspondence cells (widgets w')"
  using assms
proof (induction evs arbitrary: live w)
  case Nil
  then have "allowed live w (CellsChanged cells changed)"
    by simp
  from tracking_step [OF Nil(1) this] show ?case
    by (auto simp: run_def)
next
  case (Cons e evs)
  from Cons.prems(2) have a: "allowed live w e"
    by simp
  from tracking_step [OF Cons.prems(1) a]
  obtain w1 where w1: "deliver e w = Inr w1" "tracking (liveNext live e) w1"
    by blast
  with Cons.prems(2) have "admissible (liveNext live e) w1 (evs @ [CellsChanged cells changed])"
    by simp
  from Cons.IH [OF w1(2) this] w1(1) show ?case
    by (simp add: run_def)
qed

text \<open>
  Claim C1, as amended. Let a tracker be constructed on a notebook whose cells \<open>live\<close>
  (none, for a notebook that has no cell yet) match the toolbars of the panel: the
  widgets show distinct models, the widget of each cell of \<open>live\<close> carries exactly one
  toolbar and no other widget carries one. After every admissible sequence of events
  (cell-list changes, settings changes and renderings by the host; in particular every
  cell of the notebook has a widget when a cell-list change is handled), and so after
  each cell-list change of such a sequence, the session has returned and Toolbar
  Instances and live cells correspond one to one: every live cell has one widget, with
  exactly one toolbar, and no other widget has a toolbar.
\<close>

theorem toolbars_follow_cells:
  assumes "toolbarsMatch live ws"
    and "new_CellToolbarTracker ws reg s = Inr w0"
    and "admissible live w0 (evs @ [CellsChanged cells changed])"
  shows "\<exists>w. session ws reg s (evs @ [CellsChanged cells changed]) = Inr w \<and>
     correspondence cells (widgets w)"
  using tracking_run [OF tracking_construct [OF assms(1,2)] assms(3)] assms(2)
  by (simp add: session_def)

text \<open>
  A tracker with settings on an empty notebook: the host renders cell 1, the notebook
  announces it, the host renders cell 2 beside the decorated cell 1, the settings
  change, and the notebook announces cell 2. Both cells then have their one toolbar.
\<close>

theorem toolbars_follow_cells_witness:
  "toolbarsMatch [] [] \<and>
   new_CellToolbarTracker [] [] (settingsOf noMenus) = Inr started \<and>
   admissible [] started (history @ [CellsChanged [1, 2] \<lparr>oldValues = [], newValues = [2]\<rparr>]) \<and>
   (\<exists>w. session [] [] (settingsOf noMenus)
          (history @ [CellsChanged [1, 2] \<lparr>oldValues = [], newValues = [2]\<rparr>]) = Inr w \<and>
        correspondence [1, 2] (widgets w))"
proof -
  have t: "toolbarsMatch [] []"
    by code_simp
  have n: "new_CellToolbarTracker [] [] (settingsOf noMenus) = Inr started"
    by code_simp
  have a: "admissible [] started (history @ [CellsChanged [1, 2] \<lparr>oldValues = [], newValues = [2]\<rparr>])"
    by code_simp
  from toolbars_follow_cells [OF t n a] t n a show ?thesis
    by (intro conjI)
qed

text \<open>
  The claim fails as stated, in two ways. A tracker on a panel that shows no cell widget
  handles the event that adds cell 1 by doing nothing, and the notebook then has a cell
  without a toolbar. And a tracker constructed on a notebook that already shows cell 1
  never gives it a toolbar: after the event that adds cell 2, both cells have their
  widget, but only cell 2 has a toolbar.
\<close>

theorem toolbars_missing_counterexample:
  "map_sum id (\<lambda>w. correspondence [1] (widgets w)) (session [] [] None [added1]) = Inr False \<and>
   map_sum id (\<lambda>w. (list_all (\<lambda>m. rendered m (widgets w)) [1, 2],
                     map (\<lambda>c. length (toolbarInstances c)) (widgets w),
                     correspondence [1, 2] (widgets w)))
     (session [cell1, cell2] [] None [CellsChanged [1, 2] \<lparr>oldValues = [], newValues = [2]\<rparr>]) =
   Inr (True, [0, 1], False)"
  by code_simp

section \<open>Disposal and the life of a tracker\<close>

lemma dispose_disposed: "isDisposed w \<Longrightarrow> dispose w = Inr w"
  by (simp add: dispose_def)

lemma dispose_Inr_disposed: "dispose w = Inr w' \<Longrightarrow> isDisposed w'"
  by (auto simp: dispose_def Let_def split: if_splits option.splits)

text \<open>
  Claim C6. Once a call of \<open>dispose\<close> has returned, a further call returns the state
  unchanged, and so does any number of further calls: no disconnection, no effect.
\<close>

theorem dispose_idempotent:
  assumes "dispose w = Inr w'"
  shows "dispose w' = Inr w' \<and> run (replicate n Dispose) w' = Inr w'"
proof -
  have d: "dispose w' = Inr w'"
    using assms by (simp add: dispose_Inr_disposed dispose_disposed)
  have "forEach deliver (replicate n Dispose) w' = Inr w'"
    by (induction n) (simp_all add: d)
  with d show ?thesis
    by (simp add: run_def)
qed


text \<open>Disposing a tracker, then once more, then three more times.\<close>

theorem dispose_idempotent_witness:
  "dispose undecorated = Inr (undecorated\<lparr>isDisposed := True, cellsSlot := False, panel := None\<rparr>) \<and>
   dispose (undecorated\<lparr>isDisposed := True, cellsSlot := False, panel := None\<rparr>) =
     Inr (undecorated\<lparr>isDisposed := True, cellsSlot := False, panel := None\<rparr>) \<and>
   run (replicate 3 Dispose) (undecorated\<lparr>isDisposed := True, cellsSlot := False, panel := None\<rparr>) =
     Inr (undecorated\<lparr>isDisposed := True, cellsSlot := False, panel := None\<rparr>)"
proof -
  have "dispose undecorated = Inr (undecorated\<lparr>isDisposed := True, cellsSlot := False, panel := None\<rparr>)"
    by (simp add: dispose_def undecorated_def initial_def)
  with dispose_idempotent [OF this, of 3] show ?thesis
    by simp
qed

lemma new_CellToolbarTracker_consistent:
  "\<exists>w. new_CellToolbarTracker ws reg s = Inr w \<and> consistent w \<and> \<not> isDisposed w"
proof (cases s)
  case None
  then show ?thesis
    by (simp add: new_CellToolbarTracker_def initial_def consistent_def)
next
  case (Some st)
  have "settings (initial ws reg s) = Some st" "panel (initial ws reg s) = Some NotebookPanel"
    "\<not> isDisposed (initial ws reg s)"
    using Some by (simp_all add: initial_def)
  with onSettingsChanged_frame [of "initial ws reg s" st NotebookPanel]
  show ?thesis
    by (auto simp: new_CellToolbarTracker_def consistent_def Let_def)
qed

lemma dispose_eq:
  assumes "\<not> isDisposed w" and "panel w = Some p"
  shows "dispose w =
     Inr (if settings w \<noteq> None
          then w\<lparr>isDisposed := True, settingsSlot := False, cellsSlot := False, panel := None\<rparr>
          else w\<lparr>isDisposed := True, cellsSlot := False, panel := None\<rparr>)"
  using assms by (simp add: dispose_def Let_def)

lemma dispose_consistent:
  assumes "consistent w"
  shows "\<exists>w'. dispose w = Inr w' \<and> consistent w' \<and> isDisposed w' \<and> \<not> cellsSlot w' \<and>
     \<not> settingsSlot w' \<and> panel w' = None \<and> widgets w' = widgets w \<and> trace w' = trace w"
proof (cases "isDisposed w")
  case True
  with assms show ?thesis
    by (simp add: dispose_def consistent_def)
next
  case False
  with assms obtain p where p: "panel w = Some p"
    by (auto simp: consistent_def)
  from False assms have "settings w = None \<Longrightarrow> \<not> settingsSlot w"
    by (auto simp: consistent_def)
  then show ?thesis
    unfolding dispose_eq [OF False p] by (simp add: consistent_def)
qed

lemma deliver_consistent:
  assumes "consistent w"
  shows "\<exists>w'. deliver e w = Inr w' \<and> consistent w'"
proof (cases e)
  case (CellsChanged cells changed)
  show ?thesis
  proof (cases "cellsSlot w")
    case True
    with assms obtain p where "panel w = Some p"
      by (auto simp: consistent_def split: if_splits)
    from updateConnectedCells_eq [OF this, of cells changed] assms CellsChanged True
    show ?thesis by (auto simp: consistent_def split: if_splits)
  next
    case False
    with assms CellsChanged show ?thesis by simp
  qed
next
  case (SettingsChanged c)
  let ?w1 = "w\<lparr>settings := map_option (\<lambda>s. s\<lparr>composite := c\<rparr>) (settings w)\<rparr>"
  have c1: "consistent ?w1"
    using assms by (auto simp: consistent_def)
  show ?thesis
  proof (cases "settingsSlot w")
    case True
    with c1 obtain st p where "settings ?w1 = Some st" "panel ?w1 = Some p"
      by (auto simp: consistent_def split: if_splits)
    from onSettingsChanged_frame [OF this]
    obtain w' where "onSettingsChanged ?w1 = Inr w'" "settings w' = settings ?w1"
      "panel w' = panel ?w1" "isDisposed w' = isDisposed ?w1" "cellsSlot w' = cellsSlot ?w1"
      "settingsSlot w' = settingsSlot ?w1"
      by blast
    moreover from this c1 have "consistent w'"
      by (simp add: consistent_def)
    ultimately show ?thesis
      using SettingsChanged True by (simp add: Let_def)
  next
    case False
    with c1 SettingsChanged show ?thesis by (simp add: Let_def)
  qed
next
  case Dispose
  from dispose_consistent [OF assms] obtain w' where "dispose w = Inr w'" "consistent w'"
    by blast
  with Dispose show ?thesis by simp
next
  case (HostRender ws)
  with assms show ?thesis
    by (simp add: consistent_def)
qed

lemma run_consistent: "consistent w \<Longrightarrow> \<exists>w'. run evs w = Inr w' \<and> consistent w'"
proof (induction evs arbitrary: w)
  case Nil
  then show ?case by (simp add: run_def)
next
  case (Cons e evs)
  from deliver_consistent [OF Cons.prems, of e]
  obtain w1 where "deliver e w = Inr w1" "consistent w1" by blast
  with Cons.IH [of w1] show ?case
    by (simp add: run_def)
qed

lemma session_consistent: "\<exists>w. session ws reg s evs = Inr w \<and> consistent w"
proof -
  obtain w0 where "new_CellToolbarTracker ws reg s = Inr w0" "consistent w0"
    using new_CellToolbarTracker_consistent by blast
  with run_consistent [of w0 evs] show ?thesis
    by (simp add: session_def)
qed


text \<open>
  Claim C10. However a tracker is constructed and whatever events it is delivered, the
  unguarded read of \<open>this._settings.composite\<close> in \<open>_onSettingsChanged\<close> never fails:
  the session does not end in the error \<open>SettingsIsNull\<close>; it returns a state, and in that
  state the handler is connected only if the settings reference is not \<open>null\<close>.
\<close>

theorem settings_handler_never_null:
  "session ws reg s evs \<noteq> Inl SettingsIsNull \<and>
   (\<exists>w. session ws reg s evs = Inr w \<and> (settingsSlot w \<longrightarrow> settings w \<noteq> None))"
  using session_consistent [of ws reg s evs] by (auto simp: consistent_def)

text \<open>A tracker without settings and one with settings, through a few events.\<close>

theorem settings_handler_never_null_witness:
  "session [cell1] [] None [SettingsChanged noMenus, added1] \<noteq> Inl SettingsIsNull \<and>
   session [cell1] [] (settingsOf noMenus) [SettingsChanged noMenus, Dispose, SettingsChanged noMenus]
     \<noteq> Inl SettingsIsNull"
  using settings_handler_never_null [of "[cell1]" "[]" None "[SettingsChanged noMenus, added1]"]
    settings_handler_never_null [of "[cell1]" "[]" "settingsOf noMenus"
      "[SettingsChanged noMenus, Dispose, SettingsChanged noMenus]"]
  by simp

lemma forEach_append:
  "forEach f (xs @ ys) w = (case forEach f xs w of Inl e \<Rightarrow> Inl e | Inr w' \<Rightarrow> forEach f ys w')"
  by (induction xs arbitrary: w) (simp_all split: sum.splits)

text \<open>
  Claim C5, as amended. Disposing a tracker, after any events, returns a state that is
  disposed, with both handlers disconnected and the panel reference dropped. The cell
  widgets with all their children, so every Toolbar Instance the tracker attached, are
  as before, and nothing is added to the trace: no widget is disposed.
\<close>

theorem dispose_leaves_toolbars:
  "\<exists>w w'. session ws reg s evs = Inr w \<and> session ws reg s (evs @ [Dispose]) = Inr w' \<and>
     isDisposed w' \<and> \<not> cellsSlot w' \<and> \<not> settingsSlot w' \<and> panel w' = None \<and>
     widgets w' = widgets w \<and> trace w' = trace w"
proof -
  obtain w0 where w0: "new_CellToolbarTracker ws reg s = Inr w0" "consistent w0"
    using new_CellToolbarTracker_consistent by blast
  obtain w where w: "run evs w0 = Inr w" "consistent w"
    using run_consistent [OF w0(2)] by blast
  from dispose_consistent [OF w(2)]
  obtain w' where "dispose w = Inr w'" "isDisposed w'" "\<not> cellsSlot w'" "\<not> settingsSlot w'"
     "panel w' = None" "widgets w' = widgets w" "trace w' = trace w"
    by blast
  moreover from this(1) w(1) have "run (evs @ [Dispose]) w0 = Inr w'"
    by (simp add: run_def forEach_append)
  ultimately show ?thesis
    using w0(1) w(1) by (simp add: session_def)
qed

text \<open>Cell 1 gets its toolbar, then the tracker is disposed.\<close>

theorem dispose_leaves_toolbars_witness:
  "\<exists>w w'. session [cell1] [] None [added1] = Inr w \<and>
     session [cell1] [] None ([added1] @ [Dispose]) = Inr w' \<and>
     isDisposed w' \<and> \<not> cellsSlot w' \<and> \<not> settingsSlot w' \<and> panel w' = None \<and>
     widgets w' = widgets w \<and> trace w' = trace w"
  by (rule dispose_leaves_toolbars)

text \<open>
  The claim fails as stated: after that disposal the tracker is disposed, the toolbar it
  made is still a child of the widget of cell 1 and no widget was disposed.
\<close>

theorem dispose_leaves_toolbars_counterexample:
  "map_sum id (\<lambda>w. (isDisposed w, map toolbarInstances (widgets w), filter isDisposal (trace w)))
     (session [cell1] [] None [added1, Dispose]) = Inr (True, [[toolbar1]], [])"
  by code_simp

section \<open>A tracker without settings\<close>

text \<open>
  No event changes the collections of a tracker constructed without settings: the
  settings handler is never connected and never runs.
\<close>

lemma unconfigured_deliver:
  assumes "consistent w" and "unconfigured w" and "deliver e w = Inr w'"
  shows "unconfigured w'"
proof (cases e)
  case (CellsChanged cells changed)
  show ?thesis
  proof (cases "cellsSlot w")
    case True
    with assms(1) obtain p where "panel w = Some p"
      by (auto simp: consistent_def)
    from updateConnectedCells_eq [OF this, of cells changed] assms(2,3) CellsChanged True
    show ?thesis by (auto simp: unconfigured_def)
  next
    case False
    with assms CellsChanged show ?thesis by simp
  qed
next
  case (SettingsChanged c)
  with assms(2,3) show ?thesis
    by (auto simp: unconfigured_def Let_def)
next
  case Dispose
  with assms(2,3) show ?thesis
    by (auto simp: unconfigured_def dispose_def Let_def split: if_splits option.splits)
next
  case (HostRender ws)
  with assms(2,3) show ?thesis
    by (auto simp: unconfigured_def)
qed

lemma unconfigured_run:
  "consistent w \<Longrightarrow> unconfigured w \<Longrightarrow> run evs w = Inr w' \<Longrightarrow> unconfigured w'"
proof (induction evs arbitrary: w)
  case Nil
  then show ?case by (simp add: run_def)
next
  case (Cons e evs)
  from deliver_consistent [OF Cons.prems(1), of e]
  obtain w1 where w1: "deliver e w = Inr w1" "consistent w1" by blast
  with Cons.prems have "unconfigured w1" "run evs w1 = Inr w'"
    by (auto simp: run_def dest: unconfigured_deliver)
  with Cons.IH w1 show ?case by blast
qed

lemma null_settings_no_reconciliation:
  assumes "session ws reg None evs = Inr w"
  shows "leftMenuItems w = [] \<and> rightMenuItems w = [] \<and> allTags w = []"
proof -
  let ?w0 = "(initial ws reg None)\<lparr>cellsSlot := True\<rparr>"
  have 0: "new_CellToolbarTracker ws reg None = Inr ?w0"
    by (simp add: new_CellToolbarTracker_def initial_def)
  have "consistent ?w0" "unconfigured ?w0"
    by (simp_all add: consistent_def unconfigured_def initial_def)
  moreover from assms 0 have "run evs ?w0 = Inr w"
    by (simp add: session_def)
  ultimately have "unconfigured w"
    by (rule unconfigured_run)
  then show ?thesis
    by (simp add: unconfigured_def)
qed

text \<open>
  Claim C7. With no settings source the constructor skips the settings handler, the only
  place that fills the left-menu collection with \<open>DEFAULT_LEFT_MENU\<close>. The toolbar then
  made for cell 1 is bound to a left-menu collection that is empty, not to the built-in
  default set, which is not empty.
\<close>

theorem null_settings_left_menu_is_empty:
  "map_sum id (\<lambda>w. (leftMenuItems w, map toolbarInstances (widgets w)))
     (session [cell1] [] None [added1]) = Inr ([], [[toolbar1]]) \<and>
   DEFAULT_LEFT_MENU \<noteq> []"
  by code_simp

end
